theory Spec2Isabelle
  imports Complex_Main
begin

section \<open>Numbers, dates and the arithmetic of the host language\<close>

text \<open>
  The program is JavaScript and its numbers are IEEE doubles. Two models are used. The
  ephemerides and the normalisations of angles are modelled over exact reals: rounding,
  NaN, infinities and signed zeros are left out there. The search by solar time compares
  computed numbers with each other and with 30, where the last bit decides; there every
  arithmetic operation is followed by \<open>fl\<close>, the rounding of a real to the nearest double
  (ties to the even significand), as the language prescribes for \<open>+\<close>, \<open>-\<close>, \<open>*\<close> and \<open>/\<close>.
  Overflow to an infinity is left out. A \<open>Date\<close> is its time value, a whole number of
  milliseconds since 1970-01-01T00:00:00Z; a valid \<open>Date\<close> holds a time value of magnitude
  at most 8.64e15.
\<close>

type_synonym date = int

definition valid_date :: "date \<Rightarrow> bool" where
  "valid_date d \<longleftrightarrow> - 8640000000000000 \<le> d \<and> d \<le> 8640000000000000"

definition getTime :: "date \<Rightarrow> real" where
  "getTime d = real_of_int d"

definition getUTCHours :: "date \<Rightarrow> real" where
  "getUTCHours d = real_of_int ((d div 3600000) mod 24)"

definition getUTCMinutes :: "date \<Rightarrow> real" where
  "getUTCMinutes d = real_of_int ((d div 60000) mod 60)"

definition getUTCSeconds :: "date \<Rightarrow> real" where
  "getUTCSeconds d = real_of_int ((d div 1000) mod 60)"

text \<open>The operator \<open>%\<close>: the remainder of the division truncated towards zero, so
  the result has the sign of the dividend.\<close>

definition js_trunc :: "real \<Rightarrow> int" where
  "js_trunc a = (if a < 0 then - \<lfloor>- a\<rfloor> else \<lfloor>a\<rfloor>)"

definition js_rem :: "real \<Rightarrow> real \<Rightarrow> real" where
  "js_rem a b = a - b * real_of_int (js_trunc (a / b))"

text \<open>\<open>Math.round\<close> rounds to the nearest integer, halves upwards.\<close>

definition Math_round :: "real \<Rightarrow> int" where
  "Math_round a = \<lfloor>a + 1 / 2\<rfloor>"

text \<open>\<open>Math.atan2(b, a)\<close>: the angle in \<open>(-pi, pi]\<close> of the point \<open>(a, b)\<close>,
  and 0 at the origin.\<close>

definition Math_atan2 :: "real \<Rightarrow> real \<Rightarrow> real" where
  "Math_atan2 b a =
     (if 0 < a then arctan (b / a)
      else if a < 0 then (if 0 \<le> b then arctan (b / a) + pi else arctan (b / a) - pi)
      else if 0 < b then pi / 2
      else if b < 0 then - (pi / 2)
      else 0)"

text \<open>Rounding to a double. \<open>rne\<close> rounds a real to the nearest whole number, a tie to the
  even one. A double has 53 significant bits: a number of magnitude in \<open>[2^e, 2^(e+1))\<close>
  is rounded to a whole multiple of \<open>2^(e - 52)\<close>, and below \<open>2^(-1022)\<close> (the subnormal
  numbers) to a whole multiple of \<open>2^(-1074)\<close>.\<close>

definition rne :: "real \<Rightarrow> int" where
  "rne a =
     (let f = \<lfloor>a\<rfloor>; r = a - real_of_int f
      in if r < 1 / 2 then f else if 1 / 2 < r then f + 1 else if even f then f else f + 1)"

definition quantum_exp :: "real \<Rightarrow> int" where
  "quantum_exp a = max \<lfloor>log 2 \<bar>a\<bar>\<rfloor> (- 1022) - 52"

definition fl :: "real \<Rightarrow> real" where
  "fl a = (if a = 0 then 0 else real_of_int (rne (a / 2 powi quantum_exp a)) * 2 powi quantum_exp a)"

section \<open>utils.js: the ephemerides and the civil time\<close>

definition deg2rad :: real where
  "deg2rad = pi / 180"

definition rad2deg :: real where
  "rad2deg = 180 / pi"

definition getJulianDate :: "date \<Rightarrow> real" where
  "getJulianDate d = getTime d / 86400000 + 2440587.5"

record solar_params =
  sp_lon :: real
  sp_dec :: real
  sp_ra :: real
  sp_eot :: real

definition getSolarParameters :: "date \<Rightarrow> solar_params" where
  "getSolarParameters d =
     (let jd = getJulianDate d;
          n = jd - 2451545.0;
          L0 = js_rem (280.460 + 0.9856474 * n) 360;
          L = (if L0 < 0 then L0 + 360 else L0);
          g0 = js_rem (357.528 + 0.9856003 * n) 360;
          g = (if g0 < 0 then g0 + 360 else g0);
          lambda = L + 1.915 * sin (g * deg2rad) + 0.020 * sin (2 * g * deg2rad);
          epsilon = 23.439 - 0.0000004 * n;
          alpha0 = Math_atan2 (cos (epsilon * deg2rad) * sin (lambda * deg2rad))
                              (cos (lambda * deg2rad)) * rad2deg;
          alpha = (if alpha0 < 0 then alpha0 + 360 else alpha0);
          delta = arcsin (sin (epsilon * deg2rad) * sin (lambda * deg2rad)) * rad2deg;
          eot0 = L - alpha;
          eot1 = (if eot0 > 180 then eot0 - 360 else eot0);
          eot2 = (if eot1 < - 180 then eot1 + 360 else eot1);
          eot3 = eot2 * 4
      in \<lparr> sp_lon = lambda, sp_dec = delta, sp_ra = alpha, sp_eot = eot3 \<rparr>)"

text \<open>\<open>getLocalTime\<close> asks the runtime's formatter for the wall-clock time of a zone.
  The formatter is outside the program and throws a \<open>RangeError\<close> on a zone it does not
  know; it is a parameter here, and a result is either a thrown exception or a value.\<close>

datatype exn = RangeError | Error

definition getLocalTime :: "(date \<Rightarrow> string \<Rightarrow> exn + string) \<Rightarrow> date \<Rightarrow> string \<Rightarrow> exn + string" where
  "getLocalTime toLocaleTimeString now timezone =
     (case toLocaleTimeString now timezone of
        Inr s \<Rightarrow> Inr s
      | Inl e \<Rightarrow> Inr ''00:00:00'')"

text \<open>The two \<open>while\<close> loops that bring the Moon's longitude back into range.\<close>

function while_gt_180 :: "real \<Rightarrow> real" where
  "while_gt_180 a = (if a > 180 then while_gt_180 (a - 360) else a)"
  by pat_completeness auto
termination
proof (relation "measure (\<lambda>a. nat \<lceil>a\<rceil>)")
  show "wf (measure (\<lambda>a::real. nat \<lceil>a\<rceil>))" by simp
next
  fix a :: real
  assume "180 < a"
  then have "\<lceil>a - 360\<rceil> < \<lceil>a\<rceil>" "0 < \<lceil>a\<rceil>" by linarith+
  then show "(a - 360, a) \<in> measure (\<lambda>a. nat \<lceil>a\<rceil>)" by simp
qed

declare while_gt_180.simps [simp del]

function while_lt_m180 :: "real \<Rightarrow> real" where
  "while_lt_m180 a = (if a < - 180 then while_lt_m180 (a + 360) else a)"
  by pat_completeness auto
termination
proof (relation "measure (\<lambda>a. nat \<lceil>- a\<rceil>)")
  show "wf (measure (\<lambda>a::real. nat \<lceil>- a\<rceil>))" by simp
next
  fix a :: real
  assume "a < - 180"
  then have "\<lceil>- (a + 360)\<rceil> < \<lceil>- a\<rceil>" "0 < \<lceil>- a\<rceil>" by linarith+
  then show "(a + 360, a) \<in> measure (\<lambda>a. nat \<lceil>- a\<rceil>)" by simp
qed

declare while_lt_m180.simps [simp del]

text \<open>The body of \<open>getMoonPosition\<close> up to its last line, with the local variables kept
  in a record so that they can be spoken about; the function returns the projection of
  \<open>dec\<close> and \<open>moonLon\<close>.\<close>

record moon_locals =
  moon_L :: real
  moon_M :: real
  moon_F :: real
  moon_ra :: real
  moon_dec :: real
  moon_gst :: real
  moon_moonLon :: real

definition getMoonLocals :: "date \<Rightarrow> moon_locals" where
  "getMoonLocals now =
     (let jd = getJulianDate now;
          n = jd - 2451545.0;
          L = js_rem (218.316 + 13.176396 * n) 360;
          M = js_rem (134.963 + 13.064993 * n) 360;
          F = js_rem (93.272 + 13.229350 * n) 360;
          lambda = L + 6.289 * sin (M * deg2rad);
          beta = 5.128 * sin (F * deg2rad);
          epsilon = 23.439 - 0.0000004 * n;
          ra = Math_atan2 (sin (lambda * deg2rad) * cos (epsilon * deg2rad)
                             - tan (beta * deg2rad) * sin (epsilon * deg2rad))
                          (cos (lambda * deg2rad)) * rad2deg;
          dec = arcsin (sin (beta * deg2rad) * cos (epsilon * deg2rad)
                          + cos (beta * deg2rad) * sin (epsilon * deg2rad) * sin (lambda * deg2rad))
                  * rad2deg;
          utcHours = getUTCHours now + getUTCMinutes now / 60 + getUTCSeconds now / 3600;
          gst0 = js_rem (100.46061837 + 0.9856473662862 * n + 15 * utcHours) 360;
          gst = (if gst0 < 0 then gst0 + 360 else gst0);
          moonLon = while_lt_m180 (while_gt_180 (ra - gst))
      in \<lparr> moon_L = L, moon_M = M, moon_F = F, moon_ra = ra, moon_dec = dec,
           moon_gst = gst, moon_moonLon = moonLon \<rparr>)"

section \<open>The ingestion script: the time zone of a record\<close>

text \<open>The decimal numeral of a natural number, as string interpolation prints a
  non-negative whole number.\<close>

fun digits :: "nat \<Rightarrow> string" where
  "digits k =
     (if k < 10 then [''0123456789'' ! k]
      else digits (k div 10) @ [''0123456789'' ! (k mod 10)])"

text \<open>The look-up \<open>tz(lat, lon)\<close> of the package tz-lookup is outside the program and may
  throw; it is a parameter. The \<open>catch\<close> block computes the geometric estimate.\<close>

definition geometric_timezone :: "real \<Rightarrow> string" where
  "geometric_timezone lon =
     (let offset = Math_round (lon / 15);
          abs_offset = \<bar>offset\<bar>
      in ''Etc/GMT'' @ (if offset > 0 then ''-'' else ''+'') @ digits (nat abs_offset))"

definition timezoneId :: "(real \<Rightarrow> real \<Rightarrow> exn + string) \<Rightarrow> real \<Rightarrow> real \<Rightarrow> string" where
  "timezoneId tz lat lon =
     (case tz lat lon of
        Inr z \<Rightarrow> z
      | Inl e \<Rightarrow> geometric_timezone lon)"

section \<open>ui.js: the search by solar time\<close>

record city =
  city_name :: string
  city_lat :: real
  city_lon :: real
  city_population :: real
  city_timezone :: string
  city_country :: string

text \<open>The hour of the day that \<open>handleSearch\<close> reads off the clock, without the seconds:
  \<open>now.getUTCHours() + now.getUTCMinutes() / 60\<close>; in exact arithmetic, as the fallback
  branch is modelled, and in double arithmetic, as the loop is.\<close>

definition utcDecimalHours :: "date \<Rightarrow> real" where
  "utcDecimalHours now = getUTCHours now + getUTCMinutes now / 60"

definition utcHours_double :: "date \<Rightarrow> real" where
  "utcHours_double now = fl (getUTCHours now + fl (getUTCMinutes now / 60))"

text \<open>The body of the \<open>forEach\<close> callback, in double arithmetic: the solar minutes of a
  city and its circular difference to the target. The clock fields, the longitude of a
  record and the target minutes are doubles as they come; each of \<open>+\<close>, \<open>-\<close>, \<open>*\<close> and \<open>/\<close>
  on them is rounded.\<close>

definition solarMinutes :: "date \<Rightarrow> city \<Rightarrow> real" where
  "solarMinutes now c =
     (let utcHours = fl (getUTCHours now + fl (getUTCMinutes now / 60));
          solarHours0 = fl (utcHours + fl (city_lon c / 15));
          solarHours1 = (if solarHours0 < 0 then fl (solarHours0 + 24) else solarHours0);
          solarHours = (if solarHours1 \<ge> 24 then fl (solarHours1 - 24) else solarHours1)
      in fl (solarHours * 60))"

definition city_diff :: "date \<Rightarrow> real \<Rightarrow> city \<Rightarrow> real" where
  "city_diff now targetMinutes c =
     (let diff = \<bar>fl (solarMinutes now c - targetMinutes)\<bar>
      in if diff > 720 then fl (1440 - diff) else diff)"

text \<open>The two variables the callback updates; \<open>minDiff = None\<close> is \<open>Infinity\<close> and
  \<open>bestMatch = None\<close> is \<open>null\<close>.\<close>

record search_state =
  bestMatch :: "city option"
  minDiff :: "real option"

definition forEach_body :: "date \<Rightarrow> real \<Rightarrow> search_state \<Rightarrow> city \<Rightarrow> search_state" where
  "forEach_body now targetMinutes st c =
     (let diff = city_diff now targetMinutes c
      in if (case minDiff st of None \<Rightarrow> True | Some d \<Rightarrow> diff < d)
         then \<lparr> bestMatch = Some c, minDiff = Some diff \<rparr>
         else st)"

definition search_loop :: "date \<Rightarrow> real \<Rightarrow> city list \<Rightarrow> search_state" where
  "search_loop now targetMinutes cities =
     foldl (forEach_body now targetMinutes) \<lparr> bestMatch = None, minDiff = None \<rparr> cities"

text \<open>The \<open>else\<close> branch: the longitude of the fallback pin.\<close>

definition fallback_offset :: "date \<Rightarrow> real \<Rightarrow> real \<Rightarrow> real" where
  "fallback_offset now h m =
     (let currentUtcHours = getUTCHours now + getUTCMinutes now / 60;
          targetLocalHours = h + m / 60;
          offset0 = targetLocalHours - currentUtcHours;
          offset1 = (if offset0 < - 12 then offset0 + 24 else offset0)
      in if offset1 > 12 then offset1 - 24 else offset1)"

definition fallback_lon :: "date \<Rightarrow> real \<Rightarrow> real \<Rightarrow> real" where
  "fallback_lon now h m =
     (let targetLon0 = fallback_offset now h m * 15;
          targetLon1 = (if targetLon0 > 180 then targetLon0 - 360 else targetLon0)
      in if targetLon1 < - 180 then targetLon1 + 360 else targetLon1)"

text \<open>What \<open>handleSearch\<close> does once the time is parsed into the numbers \<open>h\<close> and \<open>m\<close>:
  it waits while the cities are not loaded, flies to the best city, or flies to the
  fallback point on the equator. The clock is read at the instant \<open>now\<close>. The target
  minutes and the loop are in double arithmetic, the fallback longitude in exact
  arithmetic.\<close>

datatype outcome = Loading | Found city | NoCity real real

definition handleSearch :: "date \<Rightarrow> city list option \<Rightarrow> real \<Rightarrow> real \<Rightarrow> outcome" where
  "handleSearch now allCities h m =
     (case allCities of
        None \<Rightarrow> Loading
      | Some cities \<Rightarrow>
          (let targetMinutes = fl (fl (h * 60) + m);
               st = search_loop now targetMinutes cities
           in case bestMatch st of
                None \<Rightarrow> NoCity 0 (fallback_lon now h m)
              | Some best \<Rightarrow>
                  if (case minDiff st of None \<Rightarrow> False | Some d \<Rightarrow> d \<le> 30)
                  then Found best
                  else NoCity 0 (fallback_lon now h m)))"

section \<open>Named pieces of the code\<close>

text \<open>The statement pair \<open>a = (...) % 360; if (a < 0) a += 360\<close> that
  \<open>getSolarParameters\<close> applies to \<open>L\<close> and \<open>g\<close> and \<open>getMoonPosition\<close> to \<open>gst\<close>.\<close>

definition rem360_fix :: "real \<Rightarrow> real" where
  "rem360_fix a = (let b = js_rem a 360 in if b < 0 then b + 360 else b)"

text \<open>The statement pair \<open>if (a > 180) a -= 360; if (a < -180) a += 360\<close> of
  \<open>getSolarParameters\<close> (on \<open>eot\<close>) and of \<open>handleSearch\<close> (on \<open>targetLon\<close>).\<close>

definition fix180_once :: "real \<Rightarrow> real" where
  "fix180_once a = (let b = (if a > 180 then a - 360 else a) in if b < - 180 then b + 360 else b)"

text \<open>The two loops of \<open>getMoonPosition\<close> on \<open>moonLon\<close>, one after the other.\<close>

definition fix180_loops :: "real \<Rightarrow> real" where
  "fix180_loops a = while_lt_m180 (while_gt_180 a)"

text \<open>The local variables of \<open>getSolarParameters\<close> up to the right ascension, as
  functions of the date; \<open>solar_alpha0\<close> is the value of \<open>Math.atan2\<close>, in radians.\<close>

definition solar_n :: "date \<Rightarrow> real" where
  "solar_n d = getJulianDate d - 2451545.0"

definition solar_L :: "date \<Rightarrow> real" where
  "solar_L d = rem360_fix (280.460 + 0.9856474 * solar_n d)"

definition solar_g :: "date \<Rightarrow> real" where
  "solar_g d = rem360_fix (357.528 + 0.9856003 * solar_n d)"

definition solar_lambda :: "date \<Rightarrow> real" where
  "solar_lambda d = solar_L d + 1.915 * sin (solar_g d * deg2rad) + 0.020 * sin (2 * solar_g d * deg2rad)"

definition solar_epsilon :: "date \<Rightarrow> real" where
  "solar_epsilon d = 23.439 - 0.0000004 * solar_n d"

definition solar_alpha0 :: "date \<Rightarrow> real" where
  "solar_alpha0 d =
     Math_atan2 (cos (solar_epsilon d * deg2rad) * sin (solar_lambda d * deg2rad))
                (cos (solar_lambda d * deg2rad))"

section \<open>The spec's normalisations\<close>

text \<open>The representative of an angle in \<open>[0, 360)\<close> and in \<open>(-180, 180]\<close>, and of an hour
  in \<open>[0, 24)\<close>, as the specification names them.\<close>

definition normalize360 :: "real \<Rightarrow> real" where
  "normalize360 a = a - 360 * real_of_int \<lfloor>a / 360\<rfloor>"

definition normalize180 :: "real \<Rightarrow> real" where
  "normalize180 a = (if normalize360 a > 180 then normalize360 a - 360 else normalize360 a)"

definition mod24 :: "real \<Rightarrow> real" where
  "mod24 a = a - 24 * real_of_int \<lfloor>a / 24\<rfloor>"

text \<open>The remainder modulo 24 in double arithmetic: the remainder rounded to a double, and 0
  when it rounds up to 24.\<close>

definition mod24_double :: "real \<Rightarrow> real" where
  "mod24_double a = (let w = fl (mod24 a) in if w \<ge> 24 then 0 else w)"

text \<open>The solar ephemeris as section 4.2 of the specification words it, with
  \<open>n = JulianDate(instant) - 2451545.0\<close>.\<close>

definition spec_solar :: "date \<Rightarrow> solar_params" where
  "spec_solar d =
     (let n = getJulianDate d - 2451545.0;
          L = normalize360 (280.460 + 0.9856474 * n);
          g = normalize360 (357.528 + 0.9856003 * n);
          lambda = L + 1.915 * sin (g * pi / 180) + 0.020 * sin (2 * g * pi / 180);
          epsilon = 23.439 - 0.0000004 * n;
          alpha = normalize360
                    (Math_atan2 (cos (epsilon * pi / 180) * sin (lambda * pi / 180))
                                (cos (lambda * pi / 180)) * 180 / pi);
          delta = arcsin (sin (epsilon * pi / 180) * sin (lambda * pi / 180)) * 180 / pi;
          eot = normalize180 (L - alpha) * 4
      in \<lparr> sp_lon = lambda, sp_dec = delta, sp_ra = alpha, sp_eot = eot \<rparr>)"

section \<open>Example inputs\<close>

text \<open>A formatter that knows one zone, and a zone look-up that throws outside the range
  of geographic coordinates, as tz-lookup does.\<close>

definition example_formatter :: "date \<Rightarrow> string \<Rightarrow> exn + string" where
  "example_formatter d z = (if z = ''UTC'' then Inr ''12:00:00'' else Inl RangeError)"

definition example_tz :: "real \<Rightarrow> real \<Rightarrow> exn + string" where
  "example_tz a b = (if \<bar>a\<bar> \<le> 90 \<and> \<bar>b\<bar> \<le> 180 then Inr ''Etc/UTC'' else Inl RangeError)"

text \<open>The two cities of the spec's example, and an instant at 12:00 UTC.\<close>

definition CityA :: city where
  "CityA = \<lparr> city_name = ''CityA'', city_lat = 0, city_lon = 0, city_population = 0,
              city_timezone = ''Etc/UTC'', city_country = ''A'' \<rparr>"

definition CityB :: city where
  "CityB = \<lparr> city_name = ''CityB'', city_lat = 0, city_lon = 180, city_population = 0,
              city_timezone = ''Etc/GMT-12'', city_country = ''B'' \<rparr>"

text \<open>A record with a longitude outside the geographic range, which the ingestion keeps;
  a city at longitude -115, where \<open>lon / 15\<close> is not a double, and one at longitude -120,
  where it is.\<close>

definition CityFar :: city where
  "CityFar = \<lparr> city_name = ''Far'', city_lat = 0, city_lon = 720, city_population = 0,
                city_timezone = ''Etc/UTC'', city_country = ''F'' \<rparr>"

definition CityW :: city where
  "CityW = \<lparr> city_name = ''West'', city_lat = 0, city_lon = - 115, city_population = 0,
              city_timezone = ''Etc/GMT+8'', city_country = ''W'' \<rparr>"

definition CityP :: city where
  "CityP = \<lparr> city_name = ''Pacific'', city_lat = 0, city_lon = - 120, city_population = 0,
              city_timezone = ''Etc/GMT+8'', city_country = ''P'' \<rparr>"

definition noon_utc :: date where
  "noon_utc = 43200000"

text \<open>The instants from \<open>10\<^sup>1\<^sup>5\<close> milliseconds before 1970 (about 31 700 years) to the
  end of the range of a \<open>Date\<close>: there the obliquity of the code stays within 30 degrees.\<close>

definition recent_date :: "date \<Rightarrow> bool" where
  "recent_date d \<longleftrightarrow> - 1000000000000000 \<le> d \<and> d \<le> 8640000000000000"

text \<open>An instant about 260 000 years before 1970, within the range of a \<open>Date\<close>.\<close>

definition far_past :: date where
  "far_past = - 8208006998400000"

section \<open>Properties\<close>

subsection \<open>Rounding to a double\<close>

lemma rne_of_int [simp]: "rne (real_of_int n) = n"
  by (simp add: rne_def)

lemma rne_bounds: "a - 1 / 2 \<le> real_of_int (rne a)" "real_of_int (rne a) \<le> a + 1 / 2"
  unfolding rne_def Let_def by (auto; linarith)+

lemma rne_mono: "a \<le> b \<Longrightarrow> rne a \<le> rne b"
proof -
  assume ab: "a \<le> b"
  then have f: "\<lfloor>a\<rfloor> \<le> \<lfloor>b\<rfloor>" by (rule floor_mono)
  show ?thesis
  proof (cases "\<lfloor>a\<rfloor> = \<lfloor>b\<rfloor>")
    case True
    then show ?thesis using ab by (auto simp: rne_def Let_def)
  next
    case False
    then have "\<lfloor>a\<rfloor> + 1 \<le> \<lfloor>b\<rfloor>" using f by simp
    moreover have "rne a \<le> \<lfloor>a\<rfloor> + 1" by (auto simp: rne_def Let_def)
    moreover have "\<lfloor>b\<rfloor> \<le> rne b" by (auto simp: rne_def Let_def)
    ultimately show ?thesis by linarith
  qed
qed

lemma rne_minus: "rne (- a) = - rne a"
proof (cases "a = real_of_int \<lfloor>a\<rfloor>")
  case True
  then have "rne a = \<lfloor>a\<rfloor>" "rne (- a) = - \<lfloor>a\<rfloor>"
    by (metis rne_of_int, metis rne_of_int of_int_minus)
  then show ?thesis by simp
next
  case False
  then have fl: "\<lfloor>- a\<rfloor> = - \<lfloor>a\<rfloor> - 1"
    by (metis ceiling_altdef ceiling_def minus_diff_eq minus_minus diff_minus_eq_add add.commute floor_of_int of_int_floor_cancel)
  define r where "r = a - real_of_int \<lfloor>a\<rfloor>"
  have r: "0 < r" "r < 1"
    using False unfolding r_def by linarith+
  have r': "- a - real_of_int \<lfloor>- a\<rfloor> = 1 - r"
    by (simp add: fl r_def)
  show ?thesis
    unfolding rne_def Let_def r' r_def [symmetric] using r
    by (auto simp: fl)
qed

lemma two_powr_int: "(2::real) powr real_of_int e = 2 powi e"
  by (simp add: powr_real_of_int')

lemma two_powr_int1: "(2::real) powr (real_of_int e + 1) = 2 powi (e + 1)"
  using two_powr_int [of "e + 1"] by simp

lemma two_powi_pos: "0 < (2::real) powi e"
  by simp

lemma floor_log2_eq:
  assumes "2 powi e \<le> x" and "x < 2 powi (e + 1)"
  shows "\<lfloor>log 2 x\<rfloor> = e"
proof -
  have x: "0 < x"
    using assms(1) zero_less_power_int [of "2::real" e] by linarith
  have "2 powr real_of_int e \<le> x" "x < 2 powr (real_of_int e + 1)"
    using assms by (simp_all only: two_powr_int two_powr_int1)
  then show ?thesis
    using floor_log_eq_powr_iff [of x 2 e] x by simp
qed

lemma floor_log2_bounds:
  assumes "0 < x"
  shows "2 powi \<lfloor>log 2 x\<rfloor> \<le> x" and "x < 2 powi (\<lfloor>log 2 x\<rfloor> + 1)"
proof -
  have "2 powr real_of_int \<lfloor>log 2 x\<rfloor> \<le> x \<and> x < 2 powr (real_of_int \<lfloor>log 2 x\<rfloor> + 1)"
    using floor_log_eq_powr_iff [of x 2 "\<lfloor>log 2 x\<rfloor>"] assms by simp
  then show "2 powi \<lfloor>log 2 x\<rfloor> \<le> x" and "x < 2 powi (\<lfloor>log 2 x\<rfloor> + 1)"
    by (simp_all only: two_powr_int two_powr_int1)
qed

lemma quantum_exp_minus [simp]: "quantum_exp (- a) = quantum_exp a"
  by (simp add: quantum_exp_def)

lemma quantum_exp_ge: "- 1074 \<le> quantum_exp a"
  by (simp add: quantum_exp_def)

lemma fl_0 [simp]: "fl 0 = 0"
  by (simp add: fl_def)

lemma fl_minus: "fl (- a) = - fl a"
  by (simp add: fl_def rne_minus)

lemma quantum_exp_normal:
  assumes "2 powi e \<le> \<bar>a\<bar>" and "\<bar>a\<bar> < 2 powi (e + 1)" and "- 1022 \<le> e"
  shows "quantum_exp a = e - 52"
  using floor_log2_eq [OF assms(1,2)] assms(3) by (simp add: quantum_exp_def)

lemma fl_binade:
  assumes "2 powi e \<le> \<bar>a\<bar>" and "\<bar>a\<bar> < 2 powi (e + 1)" and "- 1022 \<le> e"
  shows "fl a = real_of_int (rne (a / 2 powi (e - 52))) * 2 powi (e - 52)"
proof -
  have "0 < \<bar>a\<bar>"
    using assms(1) two_powi_pos [of e] by linarith
  then have "a \<noteq> 0" by simp
  then show ?thesis
    by (simp add: fl_def quantum_exp_normal [OF assms])
qed

lemma quantum_exp_subnormal:
  assumes "a \<noteq> 0" and "\<bar>a\<bar> < 2 powi (- 1022)"
  shows "quantum_exp a = - 1074"
proof -
  have "\<lfloor>log 2 \<bar>a\<bar>\<rfloor> < - 1022"
  proof (rule ccontr)
    assume "\<not> \<lfloor>log 2 \<bar>a\<bar>\<rfloor> < - 1022"
    then have "(2::real) powi (- 1022) \<le> 2 powi \<lfloor>log 2 \<bar>a\<bar>\<rfloor>"
      by (intro power_int_increasing) simp_all
    also have "\<dots> \<le> \<bar>a\<bar>"
      using assms(1) by (intro floor_log2_bounds) simp
    finally show False using assms(2) by simp
  qed
  then show ?thesis by (simp add: quantum_exp_def)
qed

lemma two_powi_less_imp: "(2::real) powi a < 2 powi b \<Longrightarrow> a < b"
  by (rule ccontr) (simp add: not_less power_int_increasing leD)

lemma two_powi_split: "b \<le> a \<Longrightarrow> (2::real) powi a = real_of_int (2 ^ nat (a - b)) * 2 powi b"
proof -
  assume "b \<le> a"
  then have "(2::real) powi a = 2 powi (a - b) * 2 powi b"
    by (simp add: power_int_add [symmetric])
  also have "(2::real) powi (a - b) = 2 ^ nat (a - b)"
    using \<open>b \<le> a\<close> by (simp add: power_int_nonneg_exp)
  finally show ?thesis by simp
qed

lemma quantum_exp_upper:
  assumes "a \<noteq> 0"
  shows "\<bar>a\<bar> < 2 powi (quantum_exp a + 53)"
proof -
  have "\<bar>a\<bar> < 2 powi (\<lfloor>log 2 \<bar>a\<bar>\<rfloor> + 1)"
    using assms by (intro floor_log2_bounds) simp
  also have "\<dots> \<le> 2 powi (quantum_exp a + 53)"
    by (intro power_int_increasing) (simp_all add: quantum_exp_def)
  finally show ?thesis .
qed

lemma quantum_exp_lower:
  assumes "a \<noteq> 0" and "- 1074 < quantum_exp a"
  shows "2 powi (quantum_exp a + 52) \<le> \<bar>a\<bar>"
proof -
  have "quantum_exp a + 52 = \<lfloor>log 2 \<bar>a\<bar>\<rfloor>"
    using assms(2) by (simp add: quantum_exp_def max_def split: if_splits)
  then show ?thesis
    using floor_log2_bounds(1) [of "\<bar>a\<bar>"] assms(1) by simp
qed

lemma quantum_exp_mono:
  assumes "0 < a" and "a \<le> b"
  shows "quantum_exp a \<le> quantum_exp b"
proof -
  have "log 2 a \<le> log 2 b"
    using assms by simp
  then have "\<lfloor>log 2 \<bar>a\<bar>\<rfloor> \<le> \<lfloor>log 2 \<bar>b\<bar>\<rfloor>"
    using assms by (simp add: floor_mono)
  then show ?thesis
    unfolding quantum_exp_def by linarith
qed

text \<open>A number with a significand below \<open>2^53\<close> and an exponent from \<open>-1074\<close> is a double and
  rounds to itself.\<close>

lemma fl_representable:
  assumes "\<bar>m\<bar> < 2 ^ 53" and "- 1074 \<le> k"
  shows "fl (real_of_int m * 2 powi k) = real_of_int m * 2 powi k"
proof (cases "m = 0")
  case True
  then show ?thesis by simp
next
  case False
  define v where "v = real_of_int m * 2 powi k"
  have v0: "v \<noteq> 0"
    using False by (simp add: v_def)
  have "\<bar>v\<bar> = real_of_int \<bar>m\<bar> * 2 powi k"
    by (simp add: v_def abs_mult)
  also have "\<dots> < real_of_int (2 ^ 53) * 2 powi k"
    using assms(1) by (intro mult_strict_right_mono) simp_all
  also have "\<dots> = 2 powi (53 + k)"
    by (simp add: power_int_add)
  finally have up: "\<bar>v\<bar> < 2 powi (53 + k)" .
  have "2 powi \<lfloor>log 2 \<bar>v\<bar>\<rfloor> \<le> \<bar>v\<bar>"
    using v0 by (intro floor_log2_bounds) simp
  with up have "(2::real) powi \<lfloor>log 2 \<bar>v\<bar>\<rfloor> < 2 powi (53 + k)"
    by linarith
  then have "\<lfloor>log 2 \<bar>v\<bar>\<rfloor> < 53 + k"
    by (rule two_powi_less_imp)
  then have "quantum_exp v \<le> k"
    using assms(2) by (simp add: quantum_exp_def)
  define q where "q = quantum_exp v"
  have qk: "q \<le> k"
    using \<open>quantum_exp v \<le> k\<close> by (simp add: q_def)
  have s: "(2::real) powi k = real_of_int (2 ^ nat (k - q)) * 2 powi q"
    using two_powi_split [OF qk] .
  have "v = real_of_int m * (real_of_int (2 ^ nat (k - q)) * 2 powi q)"
    unfolding v_def by (simp only: s)
  then have e: "v = real_of_int (m * 2 ^ nat (k - q)) * 2 powi q"
    by simp
  then have d: "v / 2 powi q = real_of_int (m * 2 ^ nat (k - q))"
    by (metis nonzero_mult_div_cancel_right power_int_not_zero zero_neq_numeral)
  have "fl v = real_of_int (rne (v / 2 powi q)) * 2 powi q"
    using v0 by (simp add: fl_def q_def)
  also have "\<dots> = real_of_int (m * 2 ^ nat (k - q)) * 2 powi q"
    by (simp only: d rne_of_int)
  also have "\<dots> = v"
    using e by simp
  finally show ?thesis by (simp add: v_def)
qed

lemma fl_of_int:
  assumes "\<bar>n\<bar> \<le> 2 ^ 53"
  shows "fl (real_of_int n) = real_of_int n"
proof (cases "\<bar>n\<bar> < 2 ^ 53")
  case True
  then show ?thesis
    using fl_representable [of n 0] by simp
next
  case False
  then have "n = 2 ^ 53 \<or> n = - (2 ^ 53)"
    using assms by linarith
  then have "real_of_int n = real_of_int (n div 2) * 2 powi 1" "\<bar>n div 2\<bar> < 2 ^ 53"
    by auto
  then show ?thesis
    using fl_representable [of "n div 2" 1] by simp
qed

lemma fl_numeral [simp]:
  "(numeral w :: int) \<le> 9007199254740992 \<Longrightarrow> fl (numeral w) = numeral w"
  "(numeral w :: int) \<le> 9007199254740992 \<Longrightarrow> fl (- numeral w) = - numeral w"
  "fl 1 = 1"
  using fl_of_int [of "numeral w"] fl_of_int [of "- numeral w"] fl_of_int [of 1]
  by simp_all

lemma rne_le_int: "a \<le> real_of_int n \<Longrightarrow> rne a \<le> n"
  using rne_mono [of a "real_of_int n"] by simp

lemma rne_ge_int: "real_of_int n \<le> a \<Longrightarrow> n \<le> rne a"
  using rne_mono [of "real_of_int n" a] by simp

lemma fl_quantum:
  "a \<noteq> 0 \<Longrightarrow> fl a = real_of_int (rne (a / 2 powi quantum_exp a)) * 2 powi quantum_exp a"
  by (simp add: fl_def)

lemma fl_significand:
  assumes "a \<noteq> 0"
  shows "\<bar>rne (a / 2 powi quantum_exp a)\<bar> \<le> 2 ^ 53"
proof -
  define q where "q = quantum_exp a"
  have "\<bar>a\<bar> < 2 powi (q + 53)"
    using quantum_exp_upper [OF assms] by (simp add: q_def)
  also have "\<dots> = 2 powi q * real_of_int (2 ^ 53)"
    by (simp add: power_int_add)
  finally have "\<bar>a\<bar> / 2 powi q < real_of_int (2 ^ 53)"
    by (simp add: field_simps)
  then have "\<bar>a / 2 powi q\<bar> < real_of_int (2 ^ 53)"
    by (simp add: abs_divide)
  then have b: "a / 2 powi q \<le> real_of_int (2 ^ 53)" "real_of_int (- (2 ^ 53)) \<le> a / 2 powi q"
    unfolding of_int_minus by linarith+
  have "rne (a / 2 powi q) \<le> 2 ^ 53" "- (2 ^ 53) \<le> rne (a / 2 powi q)"
    using rne_le_int [OF b(1)] rne_ge_int [OF b(2)] by simp_all
  then show ?thesis
    by (simp add: q_def abs_le_iff)
qed

lemma fl_is_double:
  "\<exists>m k. fl a = real_of_int m * 2 powi k \<and> \<bar>m\<bar> < 2 ^ 53 \<and> - 1074 \<le> k"
proof (cases "a = 0")
  case True
  have "fl a = real_of_int 0 * 2 powi 0 \<and> \<bar>0::int\<bar> < 2 ^ 53 \<and> (- 1074 :: int) \<le> 0"
    using True by simp
  then show ?thesis by blast
next
  case False
  define q where "q = quantum_exp a"
  define M where "M = rne (a / 2 powi q)"
  have f: "fl a = real_of_int M * 2 powi q"
    using fl_quantum [OF False] by (simp add: M_def q_def)
  have M: "\<bar>M\<bar> \<le> 2 ^ 53"
    using fl_significand [OF False] by (simp add: M_def q_def)
  have q: "- 1074 \<le> q"
    by (simp add: q_def quantum_exp_ge)
  show ?thesis
  proof (cases "\<bar>M\<bar> < 2 ^ 53")
    case True
    with f q show ?thesis by blast
  next
    case False
    then have "M = 2 ^ 53 \<or> M = - (2 ^ 53)"
      using M by linarith
    then have "real_of_int M = real_of_int (M div 2) * 2" "\<bar>M div 2\<bar> < 2 ^ 53"
      by auto
    then have "fl a = real_of_int (M div 2) * 2 powi (q + 1)" "\<bar>M div 2\<bar> < 2 ^ 53"
      by (simp_all add: f power_int_add)
    moreover have "- 1074 \<le> q + 1" using q by simp
    ultimately show ?thesis by blast
  qed
qed

lemma fl_idem [simp]: "fl (fl a) = fl a"
proof -
  obtain m k where "fl a = real_of_int m * 2 powi k" "\<bar>m\<bar> < 2 ^ 53" "- 1074 \<le> k"
    using fl_is_double by blast
  then show ?thesis
    using fl_representable [of m k] by simp
qed

lemma fl_nonneg: "0 \<le> a \<Longrightarrow> 0 \<le> fl a"
proof (cases "a = 0")
  case False
  assume "0 \<le> a"
  then have "real_of_int 0 \<le> a / 2 powi quantum_exp a" by simp
  then have "0 \<le> rne (a / 2 powi quantum_exp a)" by (rule rne_ge_int)
  then show ?thesis
    by (simp add: fl_quantum [OF False])
qed simp

lemma fl_mono_pos:
  assumes "0 < a" and "a \<le> b"
  shows "fl a \<le> fl b"
proof -
  define p q where "p = quantum_exp a" and "q = quantum_exp b"
  have a0: "a \<noteq> 0" and b0: "b \<noteq> 0"
    using assms by simp_all
  have fa: "fl a = real_of_int (rne (a / 2 powi p)) * 2 powi p"
    and fb: "fl b = real_of_int (rne (b / 2 powi q)) * 2 powi q"
    using fl_quantum [OF a0] fl_quantum [OF b0] by (simp_all add: p_def q_def)
  have pq: "p \<le> q"
    using quantum_exp_mono [OF assms] by (simp add: p_def q_def)
  show ?thesis
  proof (cases "p = q")
    case True
    have "a / 2 powi q \<le> b / 2 powi q"
      using assms(2) by (simp add: divide_right_mono)
    then have "rne (a / 2 powi q) \<le> rne (b / 2 powi q)"
      by (rule rne_mono)
    then show ?thesis
      by (simp add: fa fb True mult_right_mono)
  next
    case False
    then have lt: "p + 53 \<le> q + 52" using pq by simp
    have "rne (a / 2 powi p) \<le> 2 ^ 53"
      using fl_significand [OF a0] by (simp add: p_def abs_le_iff)
    then have "real_of_int (rne (a / 2 powi p)) \<le> real_of_int (2 ^ 53)"
      by (simp only: of_int_le_iff)
    then have "fl a \<le> real_of_int (2 ^ 53) * 2 powi p"
      unfolding fa by (intro mult_right_mono) simp_all
    also have "\<dots> = 2 powi (p + 53)"
      by (simp add: power_int_add)
    also have "\<dots> \<le> 2 powi (q + 52)"
      using lt by (intro power_int_increasing) simp_all
    finally have 1: "fl a \<le> 2 powi (q + 52)" .
    have "- 1074 < q"
      using lt quantum_exp_ge [of a] by (simp add: p_def)
    then have "2 powi (q + 52) \<le> \<bar>b\<bar>"
      using quantum_exp_lower [OF b0] by (simp add: q_def)
    then have "2 powi q * real_of_int (2 ^ 52) \<le> b"
      using assms by (simp add: power_int_add)
    then have "real_of_int (2 ^ 52) \<le> b / 2 powi q"
      by (simp add: field_simps)
    then have "2 ^ 52 \<le> rne (b / 2 powi q)"
      by (rule rne_ge_int)
    then have "real_of_int (2 ^ 52) \<le> real_of_int (rne (b / 2 powi q))"
      by (simp only: of_int_le_iff)
    then have "real_of_int (2 ^ 52) * 2 powi q \<le> fl b"
      unfolding fb by (intro mult_right_mono) simp_all
    moreover have "real_of_int (2 ^ 52) * 2 powi q = 2 powi (q + 52)"
      by (simp add: power_int_add)
    ultimately show ?thesis using 1 by linarith
  qed
qed

lemma fl_mono: "a \<le> b \<Longrightarrow> fl a \<le> fl b"
proof -
  assume ab: "a \<le> b"
  consider "0 < a" | "a \<le> 0" "0 \<le> b" | "b < 0" by linarith
  then show ?thesis
  proof cases
    case 1
    then show ?thesis using ab by (rule fl_mono_pos)
  next
    case 2
    then have "fl a \<le> 0" "0 \<le> fl b"
      using fl_nonneg [of "- a"] fl_nonneg [of b] by (simp_all add: fl_minus)
    then show ?thesis by linarith
  next
    case 3
    then have "fl (- b) \<le> fl (- a)"
      using ab by (intro fl_mono_pos) simp_all
    then show ?thesis by (simp add: fl_minus)
  qed
qed

text \<open>The doubles from \<open>2^e\<close> upwards are whole multiples of \<open>2^(e - 52)\<close>.\<close>

lemma fl_grid:
  assumes "2 powi e \<le> fl a"
  shows "\<exists>n. fl a = real_of_int n * 2 powi (e - 52)"
proof -
  obtain m k where mk: "fl a = real_of_int m * 2 powi k" "\<bar>m\<bar> < 2 ^ 53" "- 1074 \<le> k"
    using fl_is_double by blast
  have "2 powi e \<le> real_of_int m * 2 powi k"
    using assms mk(1) by simp
  also have "\<dots> \<le> real_of_int \<bar>m\<bar> * 2 powi k"
    by (intro mult_right_mono) simp_all
  also have "\<dots> < real_of_int (2 ^ 53) * 2 powi k"
    using mk(2) by (intro mult_strict_right_mono) simp_all
  also have "\<dots> = 2 powi (53 + k)"
    by (simp add: power_int_add)
  finally have "e < 53 + k"
    by (rule two_powi_less_imp)
  then have le: "e - 52 \<le> k" by simp
  have "fl a = real_of_int m * (real_of_int (2 ^ nat (k - (e - 52))) * 2 powi (e - 52))"
    unfolding mk(1) by (simp only: two_powi_split [OF le, symmetric])
  then have "fl a = real_of_int (m * 2 ^ nat (k - (e - 52))) * 2 powi (e - 52)"
    by simp
  then show ?thesis ..
qed

subsection \<open>The civil time of a zone\<close>

text \<open>
  Claim C8. \<open>getLocalTime\<close> never raises to its caller: when the formatter throws on the
  zone it returns the sentinel \<open>00:00:00\<close>, and otherwise it returns the formatter's
  wall-clock string for the zone.
\<close>

theorem getLocalTime_never_raises:
  "(\<exists>s. getLocalTime fmt now z = Inr s)
   \<and> (\<forall>e. fmt now z = Inl e \<longrightarrow> getLocalTime fmt now z = Inr ''00:00:00'')
   \<and> (\<forall>s. fmt now z = Inr s \<longrightarrow> getLocalTime fmt now z = Inr s)"
  by (simp add: getLocalTime_def split: sum.splits)

theorem getLocalTime_never_raises_witness:
  "getLocalTime example_formatter 0 ''Mars/Olympus'' = Inr ''00:00:00''
   \<and> getLocalTime example_formatter 0 ''UTC'' = Inr ''12:00:00''"
  using getLocalTime_never_raises [of example_formatter 0 "''Mars/Olympus''"]
        getLocalTime_never_raises [of example_formatter 0 "''UTC''"]
  by (simp add: example_formatter_def)

subsection \<open>The geometric time zone of the ingestion\<close>

lemma Math_round_nearest:
  "real_of_int k - 1 / 2 \<le> a \<Longrightarrow> a < real_of_int k + 1 / 2 \<Longrightarrow> Math_round a = k"
  unfolding Math_round_def by linarith

text \<open>
  Claim C9, as the code has it. When the look-up throws for a record of longitude \<open>lon\<close>,
  the zone is \<open>Etc/GMT\<close>, a sign and the magnitude of the whole number \<open>k\<close> nearest to
  \<open>lon / 15\<close> (halves upwards, \<open>Math.round\<close>), not of its floor; the sign is \<open>-\<close> when \<open>k\<close>
  is positive and \<open>+\<close> otherwise.
\<close>

theorem timezoneId_fallback_nearest:
  assumes "tz lat lon = Inl e"
    and "15 * real_of_int k - 7.5 \<le> lon" and "lon < 15 * real_of_int k + 7.5"
  shows "timezoneId tz lat lon
           = ''Etc/GMT'' @ (if k > 0 then ''-'' else ''+'') @ digits (nat \<bar>k\<bar>)"
proof -
  have "Math_round (lon / 15) = k"
    using assms(2,3) by (intro Math_round_nearest) (simp_all add: field_simps)
  then show ?thesis
    using assms(1) by (simp add: timezoneId_def geometric_timezone_def Let_def)
qed

theorem timezoneId_fallback_nearest_witness:
  "timezoneId example_tz 91 10 = ''Etc/GMT-1''"
  using timezoneId_fallback_nearest [of example_tz 91 10 RangeError 1]
  by (simp add: example_tz_def)

text \<open>At latitude 91 and longitude 10 the look-up throws, and the zone the code writes is
  \<open>Etc/GMT-1\<close>: the floor of \<open>10 / 15\<close> is 0, whatever the sign.\<close>

theorem timezoneId_fallback_floor_counterexample:
  "timezoneId example_tz 91 10 = ''Etc/GMT-1''
   \<and> timezoneId example_tz 91 10 \<noteq> ''Etc/GMT'' @ ''+'' @ digits (nat \<bar>\<lfloor>10 / 15 :: real\<rfloor>\<bar>)
   \<and> timezoneId example_tz 91 10 \<noteq> ''Etc/GMT'' @ ''-'' @ digits (nat \<bar>\<lfloor>10 / 15 :: real\<rfloor>\<bar>)"
  by (simp add: timezoneId_def example_tz_def geometric_timezone_def Math_round_def Let_def)

subsection \<open>The normalisations of angles\<close>

lemma js_rem_nonneg:
  assumes "0 \<le> a" shows "0 \<le> js_rem a 360" and "js_rem a 360 < 360"
proof -
  have "js_rem a 360 = a - 360 * real_of_int \<lfloor>a / 360\<rfloor>"
    using assms by (simp add: js_rem_def js_trunc_def)
  moreover have "real_of_int \<lfloor>a / 360\<rfloor> \<le> a / 360" "a / 360 < real_of_int \<lfloor>a / 360\<rfloor> + 1"
    by linarith+
  ultimately show "0 \<le> js_rem a 360" and "js_rem a 360 < 360"
    by (simp_all add: field_simps)
qed

lemma js_rem_neg:
  assumes "a < 0" shows "- 360 < js_rem a 360" and "js_rem a 360 \<le> 0"
    and "js_rem a 360 = a + 360 * real_of_int \<lfloor>- a / 360\<rfloor>"
proof -
  show e: "js_rem a 360 = a + 360 * real_of_int \<lfloor>- a / 360\<rfloor>"
    using assms by (simp add: js_rem_def js_trunc_def)
  have "real_of_int \<lfloor>- a / 360\<rfloor> \<le> - a / 360" "- a / 360 < real_of_int \<lfloor>- a / 360\<rfloor> + 1"
    by linarith+
  with e show "- 360 < js_rem a 360" and "js_rem a 360 \<le> 0"
    by linarith+
qed

lemma normalize360_range: "0 \<le> normalize360 a" "normalize360 a < 360"
proof -
  have "real_of_int \<lfloor>a / 360\<rfloor> \<le> a / 360" "a / 360 < real_of_int \<lfloor>a / 360\<rfloor> + 1"
    by linarith+
  then show "0 \<le> normalize360 a" "normalize360 a < 360"
    by (simp_all add: normalize360_def field_simps)
qed

lemma normalize360_unique:
  assumes "b = a + 360 * real_of_int k" and "0 \<le> b" and "b < 360"
  shows "normalize360 a = b"
proof -
  have "a / 360 = b / 360 - real_of_int k"
    using assms(1) by (simp add: field_simps)
  then have "\<lfloor>a / 360\<rfloor> = \<lfloor>b / 360\<rfloor> - k"
    by (metis floor_diff_of_int)
  moreover have "\<lfloor>b / 360\<rfloor> = 0"
    using assms(2,3) by (simp add: floor_eq_iff)
  ultimately show ?thesis
    using assms(1) by (simp add: normalize360_def)
qed

lemma normalize180_range: "- 180 < normalize180 a" "normalize180 a \<le> 180"
  using normalize360_range [of a] by (simp_all add: normalize180_def)

lemma normalize180_unique:
  assumes "b = a + 360 * real_of_int k" and "- 180 < b" and "b \<le> 180"
  shows "normalize180 a = b"
proof (cases "0 \<le> b")
  case True
  then have "normalize360 a = b"
    using assms by (intro normalize360_unique [of b a k]) simp_all
  then show ?thesis
    using assms(3) by (simp add: normalize180_def)
next
  case False
  then have "normalize360 a = b + 360"
    using assms by (intro normalize360_unique [of "b + 360" a "k + 1"]) simp_all
  then show ?thesis
    using False assms(2) by (simp add: normalize180_def)
qed

lemma rem360_fix_range: "0 \<le> rem360_fix a" "rem360_fix a < 360"
  using js_rem_nonneg [of a] js_rem_neg(1,2) [of a]
  by (cases "0 \<le> a"; simp add: rem360_fix_def Let_def; linarith)+

lemma rem360_fix_cong: "\<exists>k. rem360_fix a = a + 360 * real_of_int k"
proof (cases "js_rem a 360 < 0")
  case True
  have "rem360_fix a = a + 360 * real_of_int (1 - js_trunc (a / 360))"
    using True by (simp add: rem360_fix_def Let_def js_rem_def)
  then show ?thesis ..
next
  case False
  have "rem360_fix a = a + 360 * real_of_int (- js_trunc (a / 360))"
    using False by (simp add: rem360_fix_def Let_def js_rem_def)
  then show ?thesis ..
qed

lemma rem360_fix_normalize360: "rem360_fix a = normalize360 a"
proof -
  obtain k where "rem360_fix a = a + 360 * real_of_int k"
    using rem360_fix_cong by blast
  then show ?thesis
    using normalize360_unique [of "rem360_fix a" a k] rem360_fix_range [of a] by simp
qed

lemma while_gt_180_spec:
  "while_gt_180 a \<le> 180 \<and> (while_gt_180 a = a \<or> - 180 < while_gt_180 a)
   \<and> (\<exists>k. while_gt_180 a = a + 360 * real_of_int k)"
proof (induction a rule: while_gt_180.induct)
  case (1 a)
  show ?case
  proof (cases "a > 180")
    case True
    note ih = "1.IH" [OF True]
    have e: "while_gt_180 a = while_gt_180 (a - 360)"
      using True by (subst while_gt_180.simps) simp
    from ih obtain k where k: "while_gt_180 (a - 360) = a - 360 + 360 * real_of_int k"
      by blast
    then have "while_gt_180 a = a + 360 * real_of_int (k - 1)"
      using e by simp
    then have "\<exists>k. while_gt_180 a = a + 360 * real_of_int k" ..
    moreover have "while_gt_180 a \<le> 180" using ih e by simp
    moreover have "- 180 < while_gt_180 a" using ih e True by auto
    ultimately show ?thesis by simp
  next
    case False
    then have e: "while_gt_180 a = a"
      by (subst while_gt_180.simps) simp
    have "a = a + 360 * real_of_int 0" by simp
    then have "\<exists>k. a = a + 360 * real_of_int k" ..
    then show ?thesis using e False by simp
  qed
qed

lemma while_lt_m180_spec:
  "- 180 \<le> while_lt_m180 a \<and> (while_lt_m180 a = a \<or> while_lt_m180 a < 180)
   \<and> (\<exists>k. while_lt_m180 a = a + 360 * real_of_int k)"
proof (induction a rule: while_lt_m180.induct)
  case (1 a)
  show ?case
  proof (cases "a < - 180")
    case True
    note ih = "1.IH" [OF True]
    have e: "while_lt_m180 a = while_lt_m180 (a + 360)"
      using True by (subst while_lt_m180.simps) simp
    from ih obtain k where k: "while_lt_m180 (a + 360) = a + 360 + 360 * real_of_int k"
      by blast
    then have "while_lt_m180 a = a + 360 * real_of_int (k + 1)"
      using e by simp
    then have "\<exists>k. while_lt_m180 a = a + 360 * real_of_int k" ..
    moreover have "- 180 \<le> while_lt_m180 a" using ih e by simp
    moreover have "while_lt_m180 a < 180" using ih e True by auto
    ultimately show ?thesis by simp
  next
    case False
    then have e: "while_lt_m180 a = a"
      by (subst while_lt_m180.simps) simp
    have "a = a + 360 * real_of_int 0" by simp
    then have "\<exists>k. a = a + 360 * real_of_int k" ..
    then show ?thesis using e False by simp
  qed
qed

lemma fix180_loops_spec:
  "- 180 \<le> fix180_loops a" "fix180_loops a \<le> 180"
  "\<exists>k. fix180_loops a = a + 360 * real_of_int k"
proof -
  let ?b = "while_gt_180 a"
  from while_gt_180_spec [of a] obtain k where
    b: "?b \<le> 180" "?b = a + 360 * real_of_int k" by blast
  from while_lt_m180_spec [of ?b] obtain j where
    c: "- 180 \<le> while_lt_m180 ?b" "while_lt_m180 ?b = ?b \<or> while_lt_m180 ?b < 180"
       "while_lt_m180 ?b = ?b + 360 * real_of_int j" by blast
  show "- 180 \<le> fix180_loops a" using c(1) by (simp add: fix180_loops_def)
  show "fix180_loops a \<le> 180" using c(2) b(1) by (auto simp: fix180_loops_def)
  have "fix180_loops a = a + 360 * real_of_int (k + j)"
    using b(2) c(3) by (simp add: fix180_loops_def)
  then show "\<exists>k. fix180_loops a = a + 360 * real_of_int k" ..
qed

lemma fix180_loops_normalize180: "fix180_loops a = normalize180 a \<or> fix180_loops a = - 180"
proof (cases "fix180_loops a = - 180")
  case False
  obtain k where "fix180_loops a = a + 360 * real_of_int k"
    using fix180_loops_spec(3) by blast
  then have "normalize180 a = fix180_loops a"
    using fix180_loops_spec(1,2) [of a] False
    by (intro normalize180_unique [of _ a k]) simp_all
  then show ?thesis by simp
qed simp

lemma fix180_once_spec:
  assumes "- 540 \<le> a" and "a \<le> 540"
  shows "- 180 \<le> fix180_once a" "fix180_once a \<le> 180"
    "fix180_once a = normalize180 a \<or> fix180_once a = - 180"
proof -
  show r: "- 180 \<le> fix180_once a" "fix180_once a \<le> 180"
    using assms by (auto simp: fix180_once_def Let_def)
  have "\<exists>k. fix180_once a = a + 360 * real_of_int k"
  proof -
    have "fix180_once a = a + 360 * real_of_int (- 1) \<or> fix180_once a = a + 360 * real_of_int 0
          \<or> fix180_once a = a + 360 * real_of_int 1"
      by (auto simp: fix180_once_def Let_def)
    then show ?thesis by blast
  qed
  then obtain k where k: "fix180_once a = a + 360 * real_of_int k" ..
  show "fix180_once a = normalize180 a \<or> fix180_once a = - 180"
  proof (cases "fix180_once a = - 180")
    case False
    then have "normalize180 a = fix180_once a"
      using r k by (intro normalize180_unique [of _ a k]) simp_all
    then show ?thesis by simp
  qed simp
qed

text \<open>
  Claim C5, as the code has it. For every real \<open>a\<close> the normalisation of the code to a full
  turn lies in \<open>[0, 360)\<close> and is the spec's \<open>normalize360\<close>. Its normalisation to a half
  turn lies in the closed range \<open>[-180, 180]\<close>: the loops of \<open>getMoonPosition\<close> for every
  real \<open>a\<close>, the single pair of tests of \<open>getSolarParameters\<close> and \<open>handleSearch\<close> for
  \<open>a\<close> within one and a half turns of zero; both agree with the spec's \<open>normalize180\<close>
  except where they return \<open>-180\<close>.
\<close>

theorem angle_normalisation_ranges:
  "0 \<le> rem360_fix a \<and> rem360_fix a < 360 \<and> rem360_fix a = normalize360 a
   \<and> - 180 \<le> fix180_loops a \<and> fix180_loops a \<le> 180
   \<and> (fix180_loops a = normalize180 a \<or> fix180_loops a = - 180)
   \<and> (- 540 \<le> a \<and> a \<le> 540 \<longrightarrow>
        - 180 \<le> fix180_once a \<and> fix180_once a \<le> 180
        \<and> (fix180_once a = normalize180 a \<or> fix180_once a = - 180))"
  using rem360_fix_range [of a] rem360_fix_normalize360 [of a] fix180_loops_spec(1,2) [of a]
    fix180_loops_normalize180 [of a] fix180_once_spec [of a]
  by simp

lemma while_gt_180_stop: "a \<le> 180 \<Longrightarrow> while_gt_180 a = a"
  by (subst while_gt_180.simps) simp

lemma while_lt_m180_stop: "- 180 \<le> a \<Longrightarrow> while_lt_m180 a = a"
  by (subst while_lt_m180.simps) simp

lemma while_lt_m180_step: "a < - 180 \<Longrightarrow> while_lt_m180 a = while_lt_m180 (a + 360)"
  by (subst while_lt_m180.simps) simp

theorem angle_normalisation_ranges_witness:
  "rem360_fix (- 370) = 350 \<and> fix180_loops (- 370) = - 10 \<and> fix180_once (- 370) = - 10
   \<and> normalize360 (- 370) = 350 \<and> normalize180 (- 370) = - 10"
  using angle_normalisation_ranges [of "- 370"]
  by (simp add: fix180_loops_def fix180_once_def while_gt_180_stop while_lt_m180_step
      while_lt_m180_stop rem360_fix_def js_rem_def js_trunc_def)

text \<open>At \<open>-180\<close> both forms return \<open>-180\<close>, which is outside \<open>(-180, 180]\<close>.\<close>

theorem normalize180_half_open_counterexample:
  "\<not> (- 180 < fix180_loops (- 180) \<and> fix180_loops (- 180) \<le> 180)
   \<and> \<not> (- 180 < fix180_once (- 180) \<and> fix180_once (- 180) \<le> 180)"
  by (simp add: fix180_loops_def fix180_once_def while_gt_180_stop while_lt_m180_stop)

subsection \<open>The mean elements of the Moon\<close>

lemma getMoonLocals_after_J2000:
  assumes "946728000000 \<le> now"
  shows "0 \<le> moon_L (getMoonLocals now) \<and> moon_L (getMoonLocals now) < 360
         \<and> 0 \<le> moon_M (getMoonLocals now) \<and> moon_M (getMoonLocals now) < 360
         \<and> 0 \<le> moon_F (getMoonLocals now) \<and> moon_F (getMoonLocals now) < 360"
proof -
  define n where "n = getJulianDate now - 2451545.0"
  have "946728000000 \<le> real_of_int now"
    using assms by linarith
  then have n: "0 \<le> n"
    by (simp add: n_def getJulianDate_def getTime_def field_simps)
  have "0 \<le> 218.316 + 13.176396 * n" "0 \<le> 134.963 + 13.064993 * n" "0 \<le> 93.272 + 13.229350 * n"
    using n by simp_all
  then show ?thesis
    using js_rem_nonneg [of "218.316 + 13.176396 * n"] js_rem_nonneg [of "134.963 + 13.064993 * n"]
      js_rem_nonneg [of "93.272 + 13.229350 * n"]
    by (simp add: getMoonLocals_def Let_def n_def)
qed

text \<open>
  Claim C6. The mean longitude, the mean anomaly and the argument of latitude of the Moon
  should lie in \<open>[0, 360)\<close> at every instant. The code takes the remainder only, which
  keeps the sign of a negative argument: at the instant 0 (1970-01-01T00:00:00Z, before
  the epoch J2000) all three are negative.
\<close>

theorem getMoonLocals_before_J2000:
  "moon_L (getMoonLocals 0) = - 162.04317
   \<and> moon_M (getMoonLocals 0) = - 104.6977975
   \<and> moon_F (getMoonLocals 0) = - 147.330625"
  by (simp add: getMoonLocals_def Let_def getJulianDate_def getTime_def js_rem_def js_trunc_def)

lemma getSolarParameters_eot:
  "sp_eot (getSolarParameters d)
     = 4 * fix180_once (rem360_fix (280.460 + 0.9856474 * (getJulianDate d - 2451545.0))
                         - sp_ra (getSolarParameters d))"
  unfolding getSolarParameters_def fix180_once_def rem360_fix_def
  by (simp only: Let_def solar_params.simps)

lemma getMoonLocals_moonLon:
  "moon_moonLon (getMoonLocals now)
     = fix180_loops (moon_ra (getMoonLocals now) - moon_gst (getMoonLocals now))"
  by (simp add: getMoonLocals_def Let_def fix180_loops_def)

lemma getMoonLocals_gst:
  "moon_gst (getMoonLocals now)
     = rem360_fix (100.46061837 + 0.9856473662862 * (getJulianDate now - 2451545.0)
                   + 15 * (getUTCHours now + getUTCMinutes now / 60 + getUTCSeconds now / 3600))"
  unfolding getMoonLocals_def rem360_fix_def
  by (simp only: Let_def moon_locals.simps)

subsection \<open>The search by solar time\<close>

text \<open>Bounds of the rounding at the numbers of a clock.\<close>

lemma fl_le_numeral:
  "(numeral w :: int) \<le> 9007199254740992 \<Longrightarrow> a \<le> numeral w \<Longrightarrow> fl a \<le> numeral w"
  using fl_mono [of a "numeral w"] by simp

lemma fl_ge_numeral:
  "(numeral w :: int) \<le> 9007199254740992 \<Longrightarrow> numeral w \<le> a \<Longrightarrow> numeral w \<le> fl a"
  using fl_mono [of "numeral w" a] by simp

lemma fl_ge_neg_numeral:
  "(numeral w :: int) \<le> 9007199254740992 \<Longrightarrow> - numeral w \<le> a \<Longrightarrow> - numeral w \<le> fl a"
  using fl_mono [of "- numeral w" a] by simp

lemma fl_le_one: "a \<le> 1 \<Longrightarrow> fl a \<le> 1"
  using fl_mono [of a 1] by simp

lemma getUTC_ranges:
  "0 \<le> getUTCHours now" "getUTCHours now \<le> 23" "0 \<le> getUTCMinutes now" "getUTCMinutes now \<le> 59"
proof -
  have "0 \<le> (now div 3600000) mod 24" "(now div 3600000) mod 24 \<le> 23"
       "0 \<le> (now div 60000) mod 60" "(now div 60000) mod 60 \<le> 59"
    by simp_all
  then show "0 \<le> getUTCHours now" "getUTCHours now \<le> 23"
    "0 \<le> getUTCMinutes now" "getUTCMinutes now \<le> 59"
    unfolding getUTCHours_def getUTCMinutes_def by linarith+
qed

lemma utcHours_double_range: "0 \<le> utcHours_double now" "utcHours_double now \<le> 24"
proof -
  note r = getUTC_ranges [of now]
  have "0 \<le> getUTCMinutes now / 60" "getUTCMinutes now / 60 \<le> 1"
    using r by simp_all
  then have m: "0 \<le> fl (getUTCMinutes now / 60)" "fl (getUTCMinutes now / 60) \<le> 1"
    by (simp_all add: fl_nonneg fl_le_one)
  then have "0 \<le> getUTCHours now + fl (getUTCMinutes now / 60)"
    "getUTCHours now + fl (getUTCMinutes now / 60) \<le> 24"
    using r by simp_all
  then show "0 \<le> utcHours_double now" "utcHours_double now \<le> 24"
    unfolding utcHours_double_def by (simp_all add: fl_nonneg fl_le_numeral)
qed

text \<open>The largest double below 24 is \<open>24 - 2^(-48)\<close>.\<close>

lemma fl_below_24:
  assumes "fl a < 24"
  shows "fl a \<le> 24 - 2 powi (- 48)"
proof (cases "2 powi 4 \<le> fl a")
  case True
  then obtain n where n: "fl a = real_of_int n * 2 powi (4 - 52)"
    using fl_grid by blast
  then have "real_of_int n * 2 powi (- 48) < 24"
    using assms by simp
  then have "real_of_int n < real_of_int (24 * 2 ^ 48)"
    by (simp add: power_int_minus field_simps)
  then have "n < 24 * 2 ^ 48"
    by (simp only: of_int_less_iff)
  then have "n \<le> 24 * 2 ^ 48 - 1" by simp
  then have "real_of_int n \<le> real_of_int (24 * 2 ^ 48 - 1)"
    by (simp only: of_int_le_iff)
  then have "real_of_int n \<le> 24 * 2 ^ 48 - 1"
    by simp
  then have "real_of_int n * 2 powi (- 48) \<le> (24 * 2 ^ 48 - 1) * 2 powi (- 48)"
    by (intro mult_right_mono) simp_all
  then show ?thesis
    using n by (simp add: power_int_minus field_simps)
next
  case False
  then have "fl a < 16" by simp
  moreover have "(2::real) powi (- 48) \<le> 1"
    by (simp add: power_int_minus field_simps)
  ultimately show ?thesis by linarith
qed

lemma fl_below_1440:
  assumes "a \<le> 1440 - 60 * 2 powi (- 48)"
  shows "fl a < 1440"
proof -
  define t :: real where "t = 1440 - 60 * 2 powi (- 48)"
  have "fl t = real_of_int (rne (t / 2 powi (10 - 52))) * 2 powi (10 - 52)"
    by (rule fl_binade) (simp_all add: t_def power_int_minus)
  also have "rne (t / 2 powi (10 - 52)) = 1440 * 2 ^ 42 - 1"
    by (simp add: t_def power_int_minus rne_def Let_def)
  finally have "fl t < 1440"
    by (simp add: power_int_minus)
  moreover have "fl a \<le> fl t"
    using assms by (intro fl_mono) (simp add: t_def)
  ultimately show ?thesis by linarith
qed

text \<open>The remainder modulo 24 and the single wrap of the code.\<close>

lemma mod24_range: "0 \<le> mod24 a" "mod24 a < 24"
proof -
  have "real_of_int \<lfloor>a / 24\<rfloor> \<le> a / 24" "a / 24 < real_of_int \<lfloor>a / 24\<rfloor> + 1"
    by linarith+
  then show "0 \<le> mod24 a" "mod24 a < 24"
    by (simp_all add: mod24_def field_simps)
qed

lemma mod24_unique:
  assumes "b = a + 24 * real_of_int k" and "0 \<le> b" and "b < 24"
  shows "mod24 a = b"
proof -
  have "a / 24 = b / 24 - real_of_int k"
    using assms(1) by (simp add: field_simps)
  then have "\<lfloor>a / 24\<rfloor> = \<lfloor>b / 24\<rfloor> - k"
    by (metis floor_diff_of_int)
  moreover have "\<lfloor>b / 24\<rfloor> = 0"
    using assms(2,3) by (simp add: floor_eq_iff)
  ultimately show ?thesis
    using assms(1) by (simp add: mod24_def)
qed

text \<open>The single wrap of the code on a computed sum between -24 and 48.\<close>

lemma wrap_mod24_double:
  assumes "- 24 \<le> fl s" and "fl s < 48"
  defines "s1 \<equiv> (if fl s < 0 then fl (fl s + 24) else fl s)"
  shows "(if s1 \<ge> 24 then fl (s1 - 24) else s1) = mod24_double (fl s)"
    and "0 \<le> mod24_double (fl s)" and "mod24_double (fl s) < 24"
    and "\<exists>x. mod24_double (fl s) = fl x"
proof -
  consider "fl s < 0" | "0 \<le> fl s" "fl s < 24" | "24 \<le> fl s" by linarith
  then have "(if s1 \<ge> 24 then fl (s1 - 24) else s1) = mod24_double (fl s)
      \<and> 0 \<le> mod24_double (fl s) \<and> mod24_double (fl s) < 24
      \<and> (\<exists>x. mod24_double (fl s) = fl x)"
  proof cases
    case 1
    have m: "mod24 (fl s) = fl s + 24"
      using 1 assms(1) by (intro mod24_unique [of _ _ 1]) simp_all
    have r: "0 \<le> fl (fl s + 24)" "fl (fl s + 24) \<le> 24"
      using 1 assms(1) by (simp_all add: fl_nonneg fl_le_numeral)
    show ?thesis
    proof (cases "fl (fl s + 24) \<ge> 24")
      case True
      then have "fl (fl s + 24) = 24" using r by simp
      then have "mod24_double (fl s) = 0" "(if s1 \<ge> 24 then fl (s1 - 24) else s1) = 0"
        using 1 by (simp_all add: mod24_double_def m s1_def)
      moreover have "(0::real) = fl 0" by simp
      ultimately show ?thesis by (metis order_refl zero_less_numeral)
    next
      case False
      then have "mod24_double (fl s) = fl (fl s + 24)"
        "(if s1 \<ge> 24 then fl (s1 - 24) else s1) = fl (fl s + 24)"
        using 1 by (simp_all add: mod24_double_def m s1_def)
      then show ?thesis using False r by auto
    qed
  next
    case 2
    have m: "mod24 (fl s) = fl s"
      using 2 by (intro mod24_unique [of _ _ 0]) simp_all
    have "mod24_double (fl s) = fl s" "(if s1 \<ge> 24 then fl (s1 - 24) else s1) = fl s"
      using 2 by (simp_all add: mod24_double_def m s1_def)
    then show ?thesis using 2 by auto
  next
    case 3
    have m: "mod24 (fl s) = fl s - 24"
      using 3 assms(2) by (intro mod24_unique [of _ _ "- 1"]) simp_all
    have a: "0 \<le> fl s - 24" "fl s - 24 \<le> 12 + 12"
      using 3 assms(2) by simp_all
    have r: "0 \<le> fl (fl s - 24)" "fl (fl s - 24) < 24"
    proof -
      show "0 \<le> fl (fl s - 24)" using a(1) by (rule fl_nonneg)
      have "fl s - 24 < 24" using assms(2) by simp
      then have "fl s - 24 \<le> 24 - 2 powi (- 48)"
      proof -
        have "2 powi 5 \<le> fl s \<or> fl s < 32"
          using linorder_le_less_linear [of 32 "fl s"] by simp
        then show ?thesis
        proof
          assume "2 powi 5 \<le> fl s"
          then obtain n where n: "fl s = real_of_int n * 2 powi (5 - 52)"
            using fl_grid by blast
          then have "real_of_int n * 2 powi (- 47) < 48"
            using assms(2) by simp
          then have "real_of_int n < real_of_int (48 * 2 ^ 47)"
            by (simp add: power_int_minus field_simps)
          then have "n < 48 * 2 ^ 47" by (simp only: of_int_less_iff)
          then have "n \<le> 48 * 2 ^ 47 - 1" by simp
          then have "real_of_int n \<le> real_of_int (48 * 2 ^ 47 - 1)"
            by (simp only: of_int_le_iff)
          then have "real_of_int n \<le> 48 * 2 ^ 47 - 1" by simp
          then have "real_of_int n * 2 powi (- 47) \<le> (48 * 2 ^ 47 - 1) * 2 powi (- 47)"
            by (intro mult_right_mono) simp_all
          then have "fl s \<le> 48 - 2 powi (- 47)"
            using n by (simp add: power_int_minus field_simps)
          moreover have "(2::real) powi (- 48) \<le> 2 powi (- 47)"
            by (intro power_int_increasing) simp_all
          ultimately show ?thesis by linarith
        next
          assume "fl s < 32"
          moreover have "(2::real) powi (- 48) \<le> 1"
            by (simp add: power_int_minus field_simps)
          ultimately show ?thesis by linarith
        qed
      qed
      moreover have "fl (24 - 2 powi (- 48)) = 24 - 2 powi (- 48)"
      proof -
        have "24 - 2 powi (- 48) = real_of_int (24 * 2 ^ 48 - 1) * 2 powi (- 48)"
          by (simp add: power_int_minus field_simps)
        moreover have "fl (real_of_int (24 * 2 ^ 48 - 1) * 2 powi (- 48))
            = real_of_int (24 * 2 ^ 48 - 1) * 2 powi (- 48)"
          by (rule fl_representable) simp_all
        ultimately show ?thesis by simp
      qed
      ultimately have "fl (fl s - 24) \<le> 24 - 2 powi (- 48)"
        using fl_mono [of "fl s - 24" "24 - 2 powi (- 48)"] by simp
      moreover have "0 < (2::real) powi (- 48)" by simp
      ultimately show "fl (fl s - 24) < 24" by linarith
    qed
    have "mod24_double (fl s) = fl (fl s - 24)" "(if s1 \<ge> 24 then fl (s1 - 24) else s1) = fl (fl s - 24)"
      using 3 r by (simp_all add: mod24_double_def m s1_def)
    then show ?thesis using r by auto
  qed
  then show "(if s1 \<ge> 24 then fl (s1 - 24) else s1) = mod24_double (fl s)"
    and "0 \<le> mod24_double (fl s)" and "mod24_double (fl s) < 24"
    and "\<exists>x. mod24_double (fl s) = fl x"
    by blast+
qed

text \<open>The solar minutes and the difference of a city at a geographic longitude.\<close>

lemma solarMinutes_double:
  assumes "- 180 \<le> city_lon c" and "city_lon c \<le> 180"
  shows "solarMinutes now c
           = fl (mod24_double (fl (utcHours_double now + fl (city_lon c / 15))) * 60)"
    and "0 \<le> solarMinutes now c" and "solarMinutes now c < 1440"
proof -
  define s where "s = utcHours_double now + fl (city_lon c / 15)"
  define w where "w = mod24_double (fl s)"
  have "- 12 \<le> city_lon c / 15" "city_lon c / 15 \<le> 12"
    using assms by simp_all
  then have l: "- 12 \<le> fl (city_lon c / 15)" "fl (city_lon c / 15) \<le> 12"
    by (simp_all add: fl_ge_neg_numeral fl_le_numeral)
  have "- 24 \<le> s" "s \<le> 36"
    using l utcHours_double_range [of now] by (simp_all add: s_def)
  then have "- 24 \<le> fl s" "fl s \<le> 36"
    by (simp_all add: fl_ge_neg_numeral fl_le_numeral)
  then have r: "- 24 \<le> fl s" "fl s < 48"
    by simp_all
  note wm = wrap_mod24_double [OF r, folded w_def]
  have "solarMinutes now c
          = fl ((if (if fl s < 0 then fl (fl s + 24) else fl s) \<ge> 24
                 then fl ((if fl s < 0 then fl (fl s + 24) else fl s) - 24)
                 else (if fl s < 0 then fl (fl s + 24) else fl s)) * 60)"
    unfolding solarMinutes_def s_def utcHours_double_def by (simp only: Let_def)
  then have e0: "solarMinutes now c = fl (w * 60)"
    by (simp only: wm(1))
  then show e: "solarMinutes now c
           = fl (mod24_double (fl (utcHours_double now + fl (city_lon c / 15))) * 60)"
    by (simp only: w_def s_def)
  obtain x where x: "w = fl x" using wm(4) by blast
  have "0 \<le> w * 60" using wm(2) by simp
  then show "0 \<le> solarMinutes now c"
    unfolding e0 by (rule fl_nonneg)
  have "fl x \<le> 24 - 2 powi (- 48)"
    using wm(3) x by (intro fl_below_24) simp
  then have "w * 60 \<le> 1440 - 60 * 2 powi (- 48)"
    using x by simp
  then show "solarMinutes now c < 1440"
    unfolding e0 by (rule fl_below_1440)
qed

lemma city_diff_range:
  assumes "0 \<le> solarMinutes now c" and "solarMinutes now c < 1440" and "0 \<le> tm" and "tm < 1440"
  shows "0 \<le> city_diff now tm c" and "city_diff now tm c \<le> 720"
proof -
  define d where "d = \<bar>fl (solarMinutes now c - tm)\<bar>"
  have "- 1440 \<le> solarMinutes now c - tm" "solarMinutes now c - tm \<le> 1440"
    using assms by simp_all
  then have "- 1440 \<le> fl (solarMinutes now c - tm)" "fl (solarMinutes now c - tm) \<le> 1440"
    by (simp_all add: fl_ge_neg_numeral fl_le_numeral)
  then have d: "0 \<le> d" "d \<le> 1440"
    by (simp_all add: d_def)
  have e: "city_diff now tm c = (if d > 720 then fl (1440 - d) else d)"
    by (simp add: city_diff_def Let_def d_def)
  have "0 \<le> fl (1440 - d)" if "d > 720"
    using d by (intro fl_nonneg) simp
  moreover have "fl (1440 - d) \<le> 720" if "d > 720"
    using that by (intro fl_le_numeral) simp_all
  ultimately show "0 \<le> city_diff now tm c" and "city_diff now tm c \<le> 720"
    using d by (auto simp: e)
qed

text \<open>The target minutes of a clock time are a whole number, computed exactly.\<close>

lemma targetMinutes_exact:
  fixes h m :: nat
  assumes "h \<le> 23" and "m \<le> 59"
  shows "fl (fl (real h * 60) + real m) = real h * 60 + real m"
proof -
  have "fl (real_of_int (int h * 60)) = real_of_int (int h * 60)"
    using assms(1) by (intro fl_of_int) simp
  then have 1: "fl (real h * 60) = real h * 60" by simp
  have "fl (real_of_int (int h * 60 + int m)) = real_of_int (int h * 60 + int m)"
    using assms by (intro fl_of_int) simp
  then have "fl (real h * 60 + real m) = real h * 60 + real m" by simp
  then show ?thesis by (simp only: 1)
qed

lemma handleSearch_Some:
  "search_loop now (fl (fl (h * 60) + m)) cities = \<lparr> bestMatch = Some c, minDiff = Some d \<rparr> \<Longrightarrow>
   handleSearch now (Some cities) h m
     = (if d \<le> 30 then Found c else NoCity 0 (fallback_lon now h m))"
  by (simp add: handleSearch_def Let_def)


lemma utcDecimalHours_whole:
  assumes "utcDecimalHours now = real_of_int k"
  shows "getUTCHours now = real_of_int k" and "getUTCMinutes now = 0"
proof -
  define a b where "a = (now div 3600000) mod 24" and "b = (now div 60000) mod 60"
  have b: "0 \<le> b" "b \<le> 59" by (simp_all add: b_def)
  have "real_of_int a + real_of_int b / 60 = real_of_int k"
    using assms by (simp add: utcDecimalHours_def getUTCHours_def getUTCMinutes_def a_def b_def)
  then have "real_of_int (60 * a + b) = real_of_int (60 * k)"
    by (simp add: field_simps)
  then have "60 * a + b = 60 * k"
    by (simp only: of_int_eq_iff)
  then have "b = 60 * (k - a)" by simp
  then have "b = 0" "a = k"
    using b by auto
  then show "getUTCHours now = real_of_int k" and "getUTCMinutes now = 0"
    by (simp_all add: getUTCHours_def getUTCMinutes_def a_def b_def)
qed

lemma search_example:
  assumes "utcDecimalHours t = 12" and "city_lon a = 0" and "city_lon b = 180"
  shows "search_loop t (12 * 60 + 0) [a, b] = \<lparr> bestMatch = Some a, minDiff = Some 0 \<rparr>"
    and "handleSearch t (Some [a, b]) 12 0 = Found a"
    and "search_loop t (0 * 60 + 5) [a, b] = \<lparr> bestMatch = Some b, minDiff = Some 5 \<rparr>"
    and "handleSearch t (Some [a, b]) 0 5 = Found b"
proof -
  have u: "getUTCHours t = 12" "getUTCMinutes t = 0"
    using utcDecimalHours_whole [of t 12] assms(1) by simp_all
  have sa: "solarMinutes t a = 720" and sb: "solarMinutes t b = 0"
    using assms(2,3) by (simp_all add: solarMinutes_def Let_def u)
  show 1: "search_loop t (12 * 60 + 0) [a, b] = \<lparr> bestMatch = Some a, minDiff = Some 0 \<rparr>"
    by (simp add: search_loop_def forEach_body_def city_diff_def Let_def sa sb)
  show 2: "search_loop t (0 * 60 + 5) [a, b] = \<lparr> bestMatch = Some b, minDiff = Some 5 \<rparr>"
    by (simp add: search_loop_def forEach_body_def city_diff_def Let_def sa sb)
  show "handleSearch t (Some [a, b]) 12 0 = Found a"
    using handleSearch_Some [of t 12 0 "[a, b]" a 0] 1 by simp
  show "handleSearch t (Some [a, b]) 0 5 = Found b"
    using handleSearch_Some [of t 0 5 "[a, b]" b 5] 2 by simp
qed


lemma search_loop_Nil:
  "search_loop now tm [] = \<lparr> bestMatch = None, minDiff = None \<rparr>"
  by (simp add: search_loop_def)

lemma search_loop_snoc:
  "search_loop now tm (cs @ [c]) = forEach_body now tm (search_loop now tm cs) c"
  by (simp add: search_loop_def)

lemma search_loop_first_minimum:
  "cs \<noteq> [] \<Longrightarrow>
   \<exists>i<length cs. search_loop now tm cs
        = \<lparr> bestMatch = Some (cs ! i), minDiff = Some (city_diff now tm (cs ! i)) \<rparr>
      \<and> (\<forall>j<length cs. city_diff now tm (cs ! i) \<le> city_diff now tm (cs ! j))
      \<and> (\<forall>j<i. city_diff now tm (cs ! i) < city_diff now tm (cs ! j))"
proof (induction cs rule: rev_induct)
  case Nil
  then show ?case by simp
next
  case (snoc c cs)
  show ?case
  proof (cases "cs = []")
    case True
    then show ?thesis
      by (simp add: search_loop_def forEach_body_def Let_def)
  next
    case False
    from snoc.IH [OF False] obtain i where i: "i < length cs"
      and st: "search_loop now tm cs
        = \<lparr> bestMatch = Some (cs ! i), minDiff = Some (city_diff now tm (cs ! i)) \<rparr>"
      and mn: "\<forall>j<length cs. city_diff now tm (cs ! i) \<le> city_diff now tm (cs ! j)"
      and fst: "\<forall>j<i. city_diff now tm (cs ! i) < city_diff now tm (cs ! j)"
      by blast
    show ?thesis
    proof (cases "city_diff now tm c < city_diff now tm (cs ! i)")
      case True
      have "search_loop now tm (cs @ [c])
              = \<lparr> bestMatch = Some c, minDiff = Some (city_diff now tm c) \<rparr>"
        using True by (simp add: search_loop_snoc st forEach_body_def Let_def)
      moreover have "\<forall>j<length (cs @ [c]). city_diff now tm c \<le> city_diff now tm ((cs @ [c]) ! j)"
        using True mn by (auto simp: nth_append less_Suc_eq intro: less_imp_le order.strict_trans2)
      moreover have "\<forall>j<length cs. city_diff now tm c < city_diff now tm ((cs @ [c]) ! j)"
        using True mn by (auto simp: nth_append intro: order.strict_trans2)
      ultimately show ?thesis
        by (intro exI [of _ "length cs"]) simp
    next
      case False
      have "search_loop now tm (cs @ [c])
              = \<lparr> bestMatch = Some (cs ! i), minDiff = Some (city_diff now tm (cs ! i)) \<rparr>"
        using False by (simp add: search_loop_snoc st forEach_body_def Let_def)
      moreover have "\<forall>j<length (cs @ [c]).
          city_diff now tm (cs ! i) \<le> city_diff now tm ((cs @ [c]) ! j)"
        using False mn by (auto simp: nth_append less_Suc_eq)
      moreover have "\<forall>j<i. city_diff now tm (cs ! i) < city_diff now tm ((cs @ [c]) ! j)"
        using fst i by (auto simp: nth_append)
      ultimately show ?thesis
        using i by (intro exI [of _ i]) (simp add: nth_append)
    qed
  qed
qed


text \<open>
  Claim C2, as the code has it. For a target time \<open>h:m\<close> with \<open>h \<le> 23\<close> and \<open>m \<le> 59\<close>, at a
  fixed instant, in the double arithmetic of the program: the solar minutes of every city
  whose longitude is geographic, in \<open>[-180, 180]\<close>, are
  \<open>((utcDecimalHours + lon / 15) mod 24) * 60\<close>, in \<open>[0, 1440)\<close>, and its difference lies in
  \<open>[0, 720]\<close>; the difference of a city is \<open>|solarMinutes - targetMinutes|\<close>, taken from 1440
  when above 720; on every dataset that is not empty the loop ends with the first city of
  least computed difference and that difference; and \<open>handleSearch\<close> reports that city
  exactly when the difference is at most 30. With only CityA (longitude 0) and CityB
  (longitude 180) at 12:00 UTC, the query 12:00 selects CityA with difference 0 and the
  query 00:05 selects CityB with difference 5.
\<close>

theorem handleSearch_nearest_solar_time:
  fixes h m :: nat and cities :: "city list"
  assumes "h \<le> 23" and "m \<le> 59"
  shows "(\<forall>c\<in>set cities. - 180 \<le> city_lon c \<and> city_lon c \<le> 180 \<longrightarrow>
            solarMinutes now c
              = fl (mod24_double (fl (utcHours_double now + fl (city_lon c / 15))) * 60)
          \<and> 0 \<le> solarMinutes now c \<and> solarMinutes now c < 1440
          \<and> 0 \<le> city_diff now (real h * 60 + real m) c
          \<and> city_diff now (real h * 60 + real m) c \<le> 720)
       \<and> (\<forall>c\<in>set cities.
            city_diff now (real h * 60 + real m) c
              = (if \<bar>fl (solarMinutes now c - (real h * 60 + real m))\<bar> > 720
                 then fl (1440 - \<bar>fl (solarMinutes now c - (real h * 60 + real m))\<bar>)
                 else \<bar>fl (solarMinutes now c - (real h * 60 + real m))\<bar>))
       \<and> (cities \<noteq> [] \<longrightarrow>
           (\<exists>i<length cities.
              search_loop now (real h * 60 + real m) cities
                = \<lparr> bestMatch = Some (cities ! i),
                    minDiff = Some (city_diff now (real h * 60 + real m) (cities ! i)) \<rparr>
            \<and> (\<forall>j<length cities. city_diff now (real h * 60 + real m) (cities ! i)
                                    \<le> city_diff now (real h * 60 + real m) (cities ! j))
            \<and> (\<forall>j<i. city_diff now (real h * 60 + real m) (cities ! i)
                         < city_diff now (real h * 60 + real m) (cities ! j))
            \<and> ((handleSearch now (Some cities) (real h) (real m) = Found (cities ! i))
                 = (city_diff now (real h * 60 + real m) (cities ! i) \<le> 30))))
       \<and> (utcDecimalHours t = 12 \<and> city_lon a = 0 \<and> city_lon b = 180 \<longrightarrow>
             search_loop t (12 * 60 + 0) [a, b] = \<lparr> bestMatch = Some a, minDiff = Some 0 \<rparr>
           \<and> handleSearch t (Some [a, b]) 12 0 = Found a
           \<and> search_loop t (0 * 60 + 5) [a, b] = \<lparr> bestMatch = Some b, minDiff = Some 5 \<rparr>
           \<and> handleSearch t (Some [a, b]) 0 5 = Found b)"
proof (intro conjI)
  define tm where "tm = real h * 60 + real m"
  have tm: "0 \<le> tm" "tm < 1440"
    using assms by (simp_all add: tm_def)
  have tmx: "fl (fl (real h * 60) + real m) = tm"
    using targetMinutes_exact [OF assms] by (simp add: tm_def)
  show "\<forall>c\<in>set cities. - 180 \<le> city_lon c \<and> city_lon c \<le> 180 \<longrightarrow>
            solarMinutes now c
              = fl (mod24_double (fl (utcHours_double now + fl (city_lon c / 15))) * 60)
          \<and> 0 \<le> solarMinutes now c \<and> solarMinutes now c < 1440
          \<and> 0 \<le> city_diff now (real h * 60 + real m) c
          \<and> city_diff now (real h * 60 + real m) c \<le> 720"
  proof (intro ballI impI)
    fix c :: city
    assume "- 180 \<le> city_lon c \<and> city_lon c \<le> 180"
    then have lon: "- 180 \<le> city_lon c" "city_lon c \<le> 180"
      by simp_all
    note sm = solarMinutes_double [OF lon, of now]
    with city_diff_range [OF sm(2,3) tm]
    show "solarMinutes now c
              = fl (mod24_double (fl (utcHours_double now + fl (city_lon c / 15))) * 60)
          \<and> 0 \<le> solarMinutes now c \<and> solarMinutes now c < 1440
          \<and> 0 \<le> city_diff now (real h * 60 + real m) c
          \<and> city_diff now (real h * 60 + real m) c \<le> 720"
      unfolding tm_def by blast
  qed
  show "\<forall>c\<in>set cities.
            city_diff now (real h * 60 + real m) c
              = (if \<bar>fl (solarMinutes now c - (real h * 60 + real m))\<bar> > 720
                 then fl (1440 - \<bar>fl (solarMinutes now c - (real h * 60 + real m))\<bar>)
                 else \<bar>fl (solarMinutes now c - (real h * 60 + real m))\<bar>)"
    by (simp add: city_diff_def Let_def)
  show "cities \<noteq> [] \<longrightarrow>
           (\<exists>i<length cities.
              search_loop now (real h * 60 + real m) cities
                = \<lparr> bestMatch = Some (cities ! i),
                    minDiff = Some (city_diff now (real h * 60 + real m) (cities ! i)) \<rparr>
            \<and> (\<forall>j<length cities. city_diff now (real h * 60 + real m) (cities ! i)
                                    \<le> city_diff now (real h * 60 + real m) (cities ! j))
            \<and> (\<forall>j<i. city_diff now (real h * 60 + real m) (cities ! i)
                         < city_diff now (real h * 60 + real m) (cities ! j))
            \<and> ((handleSearch now (Some cities) (real h) (real m) = Found (cities ! i))
                 = (city_diff now (real h * 60 + real m) (cities ! i) \<le> 30)))"
  proof
    assume ne: "cities \<noteq> []"
    from search_loop_first_minimum [OF ne, of now tm] obtain i where i: "i < length cities"
      and st: "search_loop now tm cities
          = \<lparr> bestMatch = Some (cities ! i), minDiff = Some (city_diff now tm (cities ! i)) \<rparr>"
      and mn: "\<forall>j<length cities. city_diff now tm (cities ! i) \<le> city_diff now tm (cities ! j)"
      and fst: "\<forall>j<i. city_diff now tm (cities ! i) < city_diff now tm (cities ! j)"
      by blast
    have "(handleSearch now (Some cities) (real h) (real m) = Found (cities ! i))
            = (city_diff now tm (cities ! i) \<le> 30)"
      using handleSearch_Some [of now "real h" "real m" cities, unfolded tmx, OF st] by simp
    with i st mn fst
    show "\<exists>i<length cities.
              search_loop now (real h * 60 + real m) cities
                = \<lparr> bestMatch = Some (cities ! i),
                    minDiff = Some (city_diff now (real h * 60 + real m) (cities ! i)) \<rparr>
            \<and> (\<forall>j<length cities. city_diff now (real h * 60 + real m) (cities ! i)
                                    \<le> city_diff now (real h * 60 + real m) (cities ! j))
            \<and> (\<forall>j<i. city_diff now (real h * 60 + real m) (cities ! i)
                         < city_diff now (real h * 60 + real m) (cities ! j))
            \<and> ((handleSearch now (Some cities) (real h) (real m) = Found (cities ! i))
                 = (city_diff now (real h * 60 + real m) (cities ! i) \<le> 30))"
      unfolding tm_def by blast
  qed
  show "utcDecimalHours t = 12 \<and> city_lon a = 0 \<and> city_lon b = 180 \<longrightarrow>
             search_loop t (12 * 60 + 0) [a, b] = \<lparr> bestMatch = Some a, minDiff = Some 0 \<rparr>
           \<and> handleSearch t (Some [a, b]) 12 0 = Found a
           \<and> search_loop t (0 * 60 + 5) [a, b] = \<lparr> bestMatch = Some b, minDiff = Some 5 \<rparr>
           \<and> handleSearch t (Some [a, b]) 0 5 = Found b"
    using search_example [of t a b] by blast
qed

lemma utcDecimalHours_noon: "utcDecimalHours noon_utc = 12"
  by (simp add: utcDecimalHours_def getUTCHours_def getUTCMinutes_def noon_utc_def)

lemma noon_utc_clock: "getUTCHours noon_utc = 12" "getUTCMinutes noon_utc = 0"
  by (simp_all add: getUTCHours_def getUTCMinutes_def noon_utc_def)

theorem handleSearch_nearest_solar_time_witness:
  "search_loop noon_utc (12 * 60 + 0) [CityA, CityB] = \<lparr> bestMatch = Some CityA, minDiff = Some 0 \<rparr>
   \<and> handleSearch noon_utc (Some [CityA, CityB]) 12 0 = Found CityA
   \<and> search_loop noon_utc (0 * 60 + 5) [CityA, CityB] = \<lparr> bestMatch = Some CityB, minDiff = Some 5 \<rparr>
   \<and> handleSearch noon_utc (Some [CityA, CityB]) 0 5 = Found CityB
   \<and> solarMinutes noon_utc CityA = 720 \<and> solarMinutes noon_utc CityB = 0"
proof -
  have ex: "utcDecimalHours noon_utc = 12 \<and> city_lon CityA = 0 \<and> city_lon CityB = 180"
    by (simp add: utcDecimalHours_noon CityA_def CityB_def)
  have s: "solarMinutes noon_utc CityA = 720" "solarMinutes noon_utc CityB = 0"
    by (simp_all add: solarMinutes_def Let_def noon_utc_clock CityA_def CityB_def)
  from handleSearch_nearest_solar_time
         [of 12 0 "[CityA, CityB]" noon_utc noon_utc CityA CityB] ex s
  show ?thesis
    by simp
qed

text \<open>A record at longitude 720, at 12:00 UTC and for the query 00:00: the single wrap
  leaves 2160 solar minutes, where the remainder modulo 24 gives 720; the difference is
  \<open>-720\<close>, and the record is preferred to CityB, whose solar time is the target.\<close>

theorem handleSearch_longitude_counterexample:
  "solarMinutes noon_utc CityFar = 2160
   \<and> mod24 (utcDecimalHours noon_utc + city_lon CityFar / 15) * 60 = 720
   \<and> city_diff noon_utc 0 CityFar = - 720
   \<and> city_diff noon_utc 0 CityB = 0
   \<and> handleSearch noon_utc (Some [CityB, CityFar]) 0 0 = Found CityFar"
proof -
  have sf: "solarMinutes noon_utc CityFar = 2160" and sb: "solarMinutes noon_utc CityB = 0"
    by (simp_all add: solarMinutes_def Let_def noon_utc_clock CityFar_def CityB_def)
  have m: "mod24 (utcDecimalHours noon_utc + city_lon CityFar / 15) * 60 = 720"
    by (simp add: utcDecimalHours_noon CityFar_def mod24_def)
  have df: "city_diff noon_utc 0 CityFar = - 720" and db: "city_diff noon_utc 0 CityB = 0"
    by (simp_all add: city_diff_def Let_def sf sb)
  have "search_loop noon_utc (fl (fl (0 * 60) + 0)) [CityB, CityFar]
          = \<lparr> bestMatch = Some CityFar, minDiff = Some (- 720) \<rparr>"
    by (simp add: search_loop_def forEach_body_def Let_def df db)
  then have "handleSearch noon_utc (Some [CityB, CityFar]) 0 0 = Found CityFar"
    using handleSearch_Some [of noon_utc 0 0 "[CityB, CityFar]" CityFar "- 720"] by simp
  with sf m df db show ?thesis by simp
qed








text \<open>The fallback longitude is one pass of the two tests of the code.\<close>

lemma fallback_lon_fix180_once:
  "fallback_lon now h m = fix180_once (fallback_offset now h m * 15)"
  by (simp add: fallback_lon_def fix180_once_def Let_def)

text \<open>The rounding decides a search at the limit of 30 minutes. At 00:00 UTC the solar
  time of longitude \<open>-115\<close> is 16:20 in exact arithmetic; the doubles of the program give
  \<open>979.9999999999999\<close> minutes, so that the query 16:50 is off by more than 30 minutes and
  no city is reported.\<close>

lemma fl_lon_west: "fl (- 115 / 15) = - 8631899285793451 / 1125899906842624"
proof -
  have "fl (- 115 / 15) = real_of_int (rne ((- 115 / 15) / 2 powi (2 - 52))) * 2 powi (2 - 52)"
    by (rule fl_binade) (simp_all add: power_int_def power_divide)
  also have "(- 115 / 15 :: real) / 2 powi (2 - 52) = - 25895697857380352 / 3"
    by (simp add: power_int_def power_divide)
  also have "rne (- 25895697857380352 / 3) = - 8631899285793451"
    by (simp add: rne_def Let_def)
  finally show ?thesis
    by (simp add: power_int_def power_divide)
qed

lemma fl_solarHours_west:
  "fl (- 8631899285793451 / 1125899906842624 + 24) = 4597424619607381 / 281474976710656"
proof -
  have "fl (- 8631899285793451 / 1125899906842624 + 24)
      = real_of_int (rne ((- 8631899285793451 / 1125899906842624 + 24) / 2 powi (4 - 52)))
        * 2 powi (4 - 52)"
    by (rule fl_binade) (simp_all add: power_int_def power_divide)
  also have "(- 8631899285793451 / 1125899906842624 + 24 :: real) / 2 powi (4 - 52)
      = 18389698478429525 / 4"
    by (simp add: power_int_def power_divide)
  also have "rne (18389698478429525 / 4) = 4597424619607381"
    by (simp add: rne_def Let_def)
  finally show ?thesis
    by (simp add: power_int_def power_divide)
qed

lemma fl_solarMinutes_west:
  "fl (4597424619607381 / 281474976710656 * 60) = 8620171161763839 / 8796093022208"
proof -
  have "fl (4597424619607381 / 281474976710656 * 60)
      = real_of_int (rne ((4597424619607381 / 281474976710656 * 60) / 2 powi (9 - 52)))
        * 2 powi (9 - 52)"
    by (rule fl_binade) (simp_all add: power_int_def power_divide)
  also have "(4597424619607381 / 281474976710656 * 60 :: real) / 2 powi (9 - 52)
      = 68961369294110715 / 8"
    by (simp add: power_int_def power_divide)
  also have "rne (68961369294110715 / 8) = 8620171161763839"
    by (simp add: rne_def Let_def)
  finally show ?thesis
    by (simp add: power_int_def power_divide)
qed

lemma fl_diff_west:
  "fl (8620171161763839 / 8796093022208 - 1010) = - 263882790666241 / 8796093022208"
proof -
  have "fl (real_of_int (- 263882790666241) * 2 powi (- 43))
      = real_of_int (- 263882790666241) * 2 powi (- 43)"
    by (rule fl_representable) simp_all
  then show ?thesis
    by (simp add: power_int_def power_divide)
qed

lemma solarMinutes_west: "solarMinutes 0 CityW = 8620171161763839 / 8796093022208"
proof -
  have 1: "fl (getUTCHours 0 + fl (getUTCMinutes 0 / 60)) = 0"
    by (simp add: getUTCHours_def getUTCMinutes_def)
  have "fl (0 + fl (city_lon CityW / 15)) = fl (fl (- 115 / 15))"
    by (simp add: CityW_def)
  also have "\<dots> = fl (- 115 / 15)"
    by (rule fl_idem)
  finally have 2: "fl (0 + fl (city_lon CityW / 15)) = - 8631899285793451 / 1125899906842624"
    by (simp only: fl_lon_west)
  have 3: "(- 8631899285793451 / 1125899906842624 :: real) < 0"
    by simp
  have 4: "\<not> (4597424619607381 / 281474976710656 :: real) \<ge> 24"
    by simp
  show ?thesis
    unfolding solarMinutes_def Let_def 1 2
    by (simp only: 3 4 if_True if_False fl_solarHours_west fl_solarMinutes_west)
qed

lemma city_diff_west: "city_diff 0 1010 CityW = 263882790666241 / 8796093022208"
proof -
  have 1: "\<bar>- 263882790666241 / 8796093022208 :: real\<bar> = 263882790666241 / 8796093022208"
    by simp
  have 2: "\<not> (263882790666241 / 8796093022208 :: real) > 720"
    by simp
  show ?thesis
    unfolding city_diff_def Let_def solarMinutes_west fl_diff_west
    by (simp only: 1 2 if_False)
qed

lemma search_limit_example:
  "mod24 (utcDecimalHours 0 + city_lon CityW / 15) * 60 = 980"
  "solarMinutes 0 CityW = 8620171161763839 / 8796093022208"
  "city_diff 0 1010 CityW = 263882790666241 / 8796093022208"
  "handleSearch 0 (Some [CityW]) 16 50 = NoCity 0 (fallback_lon 0 16 50)"
proof -
  show "mod24 (utcDecimalHours 0 + city_lon CityW / 15) * 60 = 980"
    by (simp add: mod24_def utcDecimalHours_def getUTCHours_def getUTCMinutes_def CityW_def)
  show "solarMinutes 0 CityW = 8620171161763839 / 8796093022208"
    by (rule solarMinutes_west)
  show "city_diff 0 1010 CityW = 263882790666241 / 8796093022208"
    by (rule city_diff_west)
  have "search_loop 0 (fl (fl (16 * 60) + 50)) [CityW]
          = \<lparr> bestMatch = Some CityW, minDiff = Some (263882790666241 / 8796093022208) \<rparr>"
    by (simp add: search_loop_def forEach_body_def Let_def city_diff_west)
  then show "handleSearch 0 (Some [CityW]) 16 50 = NoCity 0 (fallback_lon 0 16 50)"
    using handleSearch_Some [of 0 16 50 "[CityW]" CityW "263882790666241 / 8796093022208"]
    by simp
qed

text \<open>The rounding decides a tie. At 00:00 UTC the solar times of the longitudes \<open>-120\<close> and
  \<open>-115\<close> are 16:00 and 16:20, and the query 16:10 is 10 minutes from both in exact
  arithmetic, where the first would win; in the doubles of the program the second is
  nearer by the last bit, and is reported.\<close>

lemma solarMinutes_pacific: "solarMinutes 0 CityP = 960"
  by (simp add: solarMinutes_def Let_def getUTCHours_def getUTCMinutes_def CityP_def)

lemma fl_diff_west_tie:
  "fl (8620171161763839 / 8796093022208 - 970) = 87960930222079 / 8796093022208"
proof -
  have "fl (real_of_int 87960930222079 * 2 powi (- 43))
      = real_of_int 87960930222079 * 2 powi (- 43)"
    by (rule fl_representable) simp_all
  then show ?thesis
    by (simp add: power_int_def power_divide)
qed

lemma city_diff_west_tie: "city_diff 0 970 CityW = 87960930222079 / 8796093022208"
proof -
  have 1: "\<bar>87960930222079 / 8796093022208 :: real\<bar> = 87960930222079 / 8796093022208"
    by simp
  have 2: "\<not> (87960930222079 / 8796093022208 :: real) > 720"
    by simp
  show ?thesis
    unfolding city_diff_def Let_def solarMinutes_west fl_diff_west_tie
    by (simp only: 1 2 if_False)
qed

lemma search_tie_example:
  "mod24 (utcDecimalHours 0 + city_lon CityP / 15) * 60 = 960"
  "mod24 (utcDecimalHours 0 + city_lon CityW / 15) * 60 = 980"
  "city_diff 0 970 CityP = 10"
  "city_diff 0 970 CityW = 87960930222079 / 8796093022208"
  "handleSearch 0 (Some [CityP, CityW]) 16 10 = Found CityW"
proof -
  show "mod24 (utcDecimalHours 0 + city_lon CityP / 15) * 60 = 960"
    by (simp add: mod24_def utcDecimalHours_def getUTCHours_def getUTCMinutes_def CityP_def)
  show "mod24 (utcDecimalHours 0 + city_lon CityW / 15) * 60 = 980"
    by (simp add: mod24_def utcDecimalHours_def getUTCHours_def getUTCMinutes_def CityW_def)
  show p: "city_diff 0 970 CityP = 10"
    by (simp add: city_diff_def Let_def solarMinutes_pacific)
  show "city_diff 0 970 CityW = 87960930222079 / 8796093022208"
    by (rule city_diff_west_tie)
  have "search_loop 0 (fl (fl (16 * 60) + 10)) [CityP, CityW]
          = \<lparr> bestMatch = Some CityW, minDiff = Some (87960930222079 / 8796093022208) \<rparr>"
    by (simp add: search_loop_def forEach_body_def Let_def city_diff_west_tie p)
  then show "handleSearch 0 (Some [CityP, CityW]) 16 10 = Found CityW"
    using handleSearch_Some [of 0 16 10 "[CityP, CityW]" CityW "87960930222079 / 8796093022208"]
    by simp
qed

subsection \<open>The two-argument arc tangent\<close>

lemma Math_atan2_range: "- pi < Math_atan2 b a" "Math_atan2 b a \<le> pi"
proof -
  have 1: "- (pi / 2) < arctan (b / a)" "arctan (b / a) < pi / 2"
    by (rule arctan_lbound, rule arctan_ubound)
  have 2: "a < 0 \<Longrightarrow> 0 \<le> b \<Longrightarrow> arctan (b / a) \<le> 0"
    by (simp add: divide_nonneg_neg arctan_le_zero_iff)
  have 3: "a < 0 \<Longrightarrow> b < 0 \<Longrightarrow> 0 < arctan (b / a)"
    by (simp add: divide_neg_neg)
  show "- pi < Math_atan2 b a" "Math_atan2 b a \<le> pi"
    using 1 2 3 pi_gt_zero by (auto simp: Math_atan2_def)
qed

lemma sqrt_sum_squares_pos:
  fixes a b :: real
  assumes "a \<noteq> 0 \<or> b \<noteq> 0"
  shows "0 < sqrt (a\<^sup>2 + b\<^sup>2)"
  using assms by (simp add: sum_power2_gt_zero_iff)

lemma cos_sin_arctan_div:
  fixes a b :: real
  assumes "a \<noteq> 0"
  shows "cos (arctan (b / a)) = \<bar>a\<bar> / sqrt (a\<^sup>2 + b\<^sup>2)"
    and "sin (arctan (b / a)) = (b / a) * \<bar>a\<bar> / sqrt (a\<^sup>2 + b\<^sup>2)"
proof -
  have "1 + (b / a)\<^sup>2 = (a\<^sup>2 + b\<^sup>2) / a\<^sup>2"
    using assms by (simp add: field_simps power2_eq_square)
  then have s: "sqrt (1 + (b / a)\<^sup>2) = sqrt (a\<^sup>2 + b\<^sup>2) / \<bar>a\<bar>"
    by (simp add: real_sqrt_divide)
  show "cos (arctan (b / a)) = \<bar>a\<bar> / sqrt (a\<^sup>2 + b\<^sup>2)"
    by (simp add: cos_arctan s)
  show "sin (arctan (b / a)) = (b / a) * \<bar>a\<bar> / sqrt (a\<^sup>2 + b\<^sup>2)"
    by (simp add: sin_arctan s)
qed

lemma Math_atan2_polar:
  fixes a b :: real
  assumes "a \<noteq> 0 \<or> b \<noteq> 0"
  shows "cos (Math_atan2 b a) = a / sqrt (a\<^sup>2 + b\<^sup>2)"
    and "sin (Math_atan2 b a) = b / sqrt (a\<^sup>2 + b\<^sup>2)"
proof -
  consider "0 < a" | "a < 0" "0 \<le> b" | "a < 0" "b < 0" | "a = 0" "0 < b" | "a = 0" "b < 0"
    using assms by fastforce
  then have "cos (Math_atan2 b a) = a / sqrt (a\<^sup>2 + b\<^sup>2)
             \<and> sin (Math_atan2 b a) = b / sqrt (a\<^sup>2 + b\<^sup>2)"
  proof cases
    case 1
    then show ?thesis
      using cos_sin_arctan_div [of a b] by (simp add: Math_atan2_def)
  next
    case 2
    then show ?thesis
      using cos_sin_arctan_div [of a b] by (simp add: Math_atan2_def)
  next
    case 3
    then show ?thesis
      using cos_sin_arctan_div [of a b] by (simp add: Math_atan2_def cos_diff sin_diff)
  next
    case 4
    then show ?thesis by (simp add: Math_atan2_def)
  next
    case 5
    then show ?thesis by (simp add: Math_atan2_def)
  qed
  then show "cos (Math_atan2 b a) = a / sqrt (a\<^sup>2 + b\<^sup>2)"
    and "sin (Math_atan2 b a) = b / sqrt (a\<^sup>2 + b\<^sup>2)"
    by simp_all
qed

subsection \<open>The solar ephemeris\<close>

lemma getSolarParameters_locals:
  "getSolarParameters d =
     \<lparr> sp_lon = solar_lambda d,
       sp_dec = arcsin (sin (solar_epsilon d * deg2rad) * sin (solar_lambda d * deg2rad)) * rad2deg,
       sp_ra = (if solar_alpha0 d * rad2deg < 0 then solar_alpha0 d * rad2deg + 360
                else solar_alpha0 d * rad2deg),
       sp_eot = fix180_once (solar_L d - (if solar_alpha0 d * rad2deg < 0
                                          then solar_alpha0 d * rad2deg + 360
                                          else solar_alpha0 d * rad2deg)) * 4 \<rparr>"
  unfolding getSolarParameters_def solar_lambda_def solar_epsilon_def solar_alpha0_def
    solar_L_def solar_g_def solar_n_def fix180_once_def rem360_fix_def
  by (simp only: Let_def)

lemma solar_L_range: "0 \<le> solar_L d" "solar_L d < 360"
  by (simp_all add: solar_L_def rem360_fix_range)

lemma solar_lambda_near_L: "\<bar>solar_lambda d - solar_L d\<bar> \<le> 1.935"
proof -
  define s1 s2 where "s1 = sin (solar_g d * deg2rad)" and "s2 = sin (2 * solar_g d * deg2rad)"
  have b: "- 1 \<le> s1" "s1 \<le> 1" "- 1 \<le> s2" "s2 \<le> 1"
    by (simp_all add: s1_def s2_def)
  have e: "solar_lambda d - solar_L d = 1.915 * s1 + 0.020 * s2"
    by (simp add: solar_lambda_def s1_def s2_def)
  have "- 1.935 \<le> 1.915 * s1 + 0.020 * s2" "1.915 * s1 + 0.020 * s2 \<le> 1.935"
    using b by simp_all
  then show ?thesis
    unfolding e by (simp only: abs_le_iff) simp
qed

lemma solar_epsilon_range:
  assumes "valid_date d"
  shows "- 17 < solar_epsilon d" and "solar_epsilon d < 64"
proof -
  have "- 8640000000000000 \<le> real_of_int d" "real_of_int d \<le> 8640000000000000"
    using assms unfolding valid_date_def by linarith+
  then show "- 17 < solar_epsilon d" and "solar_epsilon d < 64"
    by (simp_all add: solar_epsilon_def solar_n_def getJulianDate_def getTime_def field_simps)
qed

lemma deg2rad_pos: "0 < deg2rad"
  by (simp add: deg2rad_def)

lemma deg2rad_mono: "a \<le> b \<Longrightarrow> a * deg2rad \<le> b * deg2rad"
  using deg2rad_pos by simp

lemma deg2rad_strict_mono: "a < b \<Longrightarrow> a * deg2rad < b * deg2rad"
  using deg2rad_pos by simp

lemma deg2rad_values:
  "90 * deg2rad = pi / 2" "- 90 * deg2rad = - (pi / 2)" "180 * deg2rad = pi"
  "60 * deg2rad = pi / 3" "30 * deg2rad = pi / 6" "45 * deg2rad = pi / 4"
  "- 180 * deg2rad = - pi" "- 30 * deg2rad = - (pi / 6)"
  by (simp_all add: deg2rad_def)

lemma rad2deg_deg2rad: "a * deg2rad * rad2deg = a" "a * rad2deg * deg2rad = a"
  by (simp_all add: deg2rad_def rad2deg_def)

lemma cos_degrees_pos:
  assumes "- 90 < a" and "a < 90"
  shows "0 < cos (a * deg2rad)"
proof -
  have "- (pi / 2) < a * deg2rad" "a * deg2rad < pi / 2"
    using deg2rad_strict_mono [OF assms(1)] deg2rad_strict_mono [OF assms(2)]
    by (simp_all add: deg2rad_values)
  then show ?thesis by (rule cos_gt_zero_pi)
qed

lemma cos_add_turns: "cos (a + 2 * pi * real_of_int k) = cos a"
  by (simp add: cos_add)

lemma cos_degrees_turns: "cos ((a + 360 * real_of_int k) * deg2rad) = cos (a * deg2rad)"
proof -
  have "(a + 360 * real_of_int k) * deg2rad = a * deg2rad + 2 * pi * real_of_int k"
    by (simp add: deg2rad_def field_simps)
  then show ?thesis
    by (simp only: cos_add_turns)
qed

text \<open>The right ascension \<open>atan2 (c sin l) (cos l)\<close> stays within a quarter turn of \<open>l\<close>.\<close>

lemma ra_offset:
  fixes c l :: real
  assumes "0 < c"
  defines "R \<equiv> sqrt ((cos l)\<^sup>2 + (c * sin l)\<^sup>2)"
  shows "0 < R"
    and "cos (l - Math_atan2 (c * sin l) (cos l)) = ((cos l)\<^sup>2 + c * (sin l)\<^sup>2) / R"
    and "sin (l - Math_atan2 (c * sin l) (cos l)) = (1 - c) * sin l * cos l / R"
    and "0 < cos (l - Math_atan2 (c * sin l) (cos l))"
proof -
  have nz: "cos l \<noteq> 0 \<or> c * sin l \<noteq> 0"
    using assms(1) sin_zero_abs_cos_one [of l] by fastforce
  show R: "0 < R"
    unfolding R_def using nz by (rule sqrt_sum_squares_pos)
  note p = Math_atan2_polar [OF nz, folded R_def]
  show c: "cos (l - Math_atan2 (c * sin l) (cos l)) = ((cos l)\<^sup>2 + c * (sin l)\<^sup>2) / R"
    by (simp add: cos_diff p power2_eq_square add_divide_distrib)
  show "sin (l - Math_atan2 (c * sin l) (cos l)) = (1 - c) * sin l * cos l / R"
    by (simp add: sin_diff p algebra_simps diff_divide_distrib)
  have "0 < (cos l)\<^sup>2 + c * (sin l)\<^sup>2"
  proof (cases "cos l = 0")
    case True
    then have "sin l \<noteq> 0" using nz assms(1) by simp
    then show ?thesis using assms(1) by (simp add: True)
  next
    case False
    then have "0 < (cos l)\<^sup>2" by simp
    moreover have "0 \<le> c * (sin l)\<^sup>2" using assms(1) by simp
    ultimately show ?thesis by linarith
  qed
  then show "0 < cos (l - Math_atan2 (c * sin l) (cos l))"
    using R by (simp add: c)
qed

lemma ra_offset_sin_bound:
  fixes c l :: real
  assumes "0 < c" and "c \<le> 1"
  shows "\<bar>sin (l - Math_atan2 (c * sin l) (cos l))\<bar> \<le> (1 - c) / (1 + c)"
proof -
  define R where "R = sqrt ((cos l)\<^sup>2 + (c * sin l)\<^sup>2)"
  define s where "s = sin l"
  define k where "k = cos l"
  note ro = ra_offset [OF assms(1), of l, folded R_def]
  have k2: "k\<^sup>2 = 1 - s\<^sup>2"
    by (simp add: k_def s_def cos_squared_eq)
  have R2: "R\<^sup>2 = k\<^sup>2 + (c * s)\<^sup>2"
    by (simp add: R_def k_def s_def)
  have "(1 + c)\<^sup>2 * ((1 - c) * s * k)\<^sup>2 = (1 - c)\<^sup>2 * ((1 + c)\<^sup>2 * s\<^sup>2 * k\<^sup>2)"
    by algebra
  also have "(1 + c)\<^sup>2 * s\<^sup>2 * k\<^sup>2 = R\<^sup>2 - (1 - (1 + c) * s\<^sup>2)\<^sup>2"
    unfolding R2 k2 by algebra
  also have "\<dots> \<le> R\<^sup>2" by simp
  finally have "(1 + c)\<^sup>2 * ((1 - c) * s * k)\<^sup>2 \<le> (1 - c)\<^sup>2 * R\<^sup>2"
    by (simp add: mult_left_mono)
  then have "((1 + c) * ((1 - c) * s * k))\<^sup>2 \<le> ((1 - c) * R)\<^sup>2"
    by (simp add: power_mult_distrib)
  then have "\<bar>(1 + c) * ((1 - c) * s * k)\<bar> \<le> \<bar>(1 - c) * R\<bar>"
    by (simp only: abs_le_square_iff)
  then have "(1 + c) * \<bar>(1 - c) * s * k\<bar> \<le> (1 - c) * R"
    using assms ro(1) by (simp add: abs_mult)
  then have "\<bar>(1 - c) * s * k\<bar> / R \<le> (1 - c) / (1 + c)"
    using assms ro(1) by (simp add: field_simps)
  then show ?thesis
    using ro(1) by (simp add: ro(3) s_def k_def)
qed

lemma spec_solar_locals:
  "spec_solar d =
     \<lparr> sp_lon = solar_lambda d,
       sp_dec = arcsin (sin (solar_epsilon d * deg2rad) * sin (solar_lambda d * deg2rad)) * rad2deg,
       sp_ra = normalize360 (solar_alpha0 d * rad2deg),
       sp_eot = normalize180 (solar_L d - normalize360 (solar_alpha0 d * rad2deg)) * 4 \<rparr>"
  unfolding spec_solar_def Let_def solar_lambda_def solar_epsilon_def solar_alpha0_def
    solar_L_def solar_g_def solar_n_def rem360_fix_normalize360
  by (simp add: deg2rad_def rad2deg_def)

lemma solar_alpha0_degrees:
  "- 180 < solar_alpha0 d * rad2deg" "solar_alpha0 d * rad2deg \<le> 180"
proof -
  have "- pi < solar_alpha0 d" "solar_alpha0 d \<le> pi"
    unfolding solar_alpha0_def by (rule Math_atan2_range)+
  then show "- 180 < solar_alpha0 d * rad2deg" "solar_alpha0 d * rad2deg \<le> 180"
    by (simp_all add: rad2deg_def field_simps)
qed

lemma solar_ra_normalize360:
  "(if solar_alpha0 d * rad2deg < 0 then solar_alpha0 d * rad2deg + 360
    else solar_alpha0 d * rad2deg) = normalize360 (solar_alpha0 d * rad2deg)"
proof (cases "solar_alpha0 d * rad2deg < 0")
  case True
  then have "normalize360 (solar_alpha0 d * rad2deg) = solar_alpha0 d * rad2deg + 360"
    using solar_alpha0_degrees [of d]
    by (intro normalize360_unique [of _ _ 1]) simp_all
  then show ?thesis using True by simp
next
  case False
  then have "normalize360 (solar_alpha0 d * rad2deg) = solar_alpha0 d * rad2deg"
    using solar_alpha0_degrees [of d]
    by (intro normalize360_unique [of _ _ 0]) simp_all
  then show ?thesis using False by simp
qed

lemma solar_ra_range:
  "0 \<le> sp_ra (getSolarParameters d)" "sp_ra (getSolarParameters d) < 360"
  "sp_ra (getSolarParameters d) = normalize360 (solar_alpha0 d * rad2deg)"
  by (simp_all only: getSolarParameters_locals solar_params.simps solar_ra_normalize360
      normalize360_range)

text \<open>The angle the equation of time measures, before the factor 4.\<close>

lemma solar_eot_angle:
  "sp_eot (getSolarParameters d) = fix180_once (solar_L d - sp_ra (getSolarParameters d)) * 4"
  "- 180 \<le> fix180_once (solar_L d - sp_ra (getSolarParameters d))"
  "fix180_once (solar_L d - sp_ra (getSolarParameters d)) \<le> 180"
  "cos (fix180_once (solar_L d - sp_ra (getSolarParameters d)) * deg2rad)
     = cos (solar_L d * deg2rad - solar_alpha0 d)"
proof -
  define al where "al = sp_ra (getSolarParameters d)"
  define e where "e = fix180_once (solar_L d - al)"
  show "sp_eot (getSolarParameters d) = fix180_once (solar_L d - sp_ra (getSolarParameters d)) * 4"
    by (simp only: getSolarParameters_locals solar_params.simps)
  have r: "- 540 \<le> solar_L d - al" "solar_L d - al \<le> 540"
    using solar_L_range [of d] solar_ra_range(1,2) [of d] by (simp_all add: al_def)
  show "- 180 \<le> fix180_once (solar_L d - sp_ra (getSolarParameters d))"
    "fix180_once (solar_L d - sp_ra (getSolarParameters d)) \<le> 180"
    using fix180_once_spec(1,2) [OF r] by (simp_all add: al_def)
  have "\<exists>j. al = solar_alpha0 d * rad2deg + 360 * real_of_int j"
  proof -
    have "al = solar_alpha0 d * rad2deg + 360 * real_of_int 1
          \<or> al = solar_alpha0 d * rad2deg + 360 * real_of_int 0"
      unfolding al_def by (simp only: getSolarParameters_locals solar_params.simps) simp
    then show ?thesis by blast
  qed
  then obtain j where j: "al = solar_alpha0 d * rad2deg + 360 * real_of_int j" ..
  have "\<exists>k. e = (solar_L d - al) + 360 * real_of_int k"
  proof -
    have "e = (solar_L d - al) + 360 * real_of_int (- 1) \<or> e = (solar_L d - al) + 360 * real_of_int 0
          \<or> e = (solar_L d - al) + 360 * real_of_int 1"
      by (auto simp: e_def fix180_once_def Let_def)
    then show ?thesis by blast
  qed
  then obtain k where k: "e = (solar_L d - al) + 360 * real_of_int k" ..
  have "e = (solar_L d - solar_alpha0 d * rad2deg) + 360 * real_of_int (k - j)"
    using j k by simp
  then have "cos (e * deg2rad) = cos ((solar_L d - solar_alpha0 d * rad2deg) * deg2rad)"
    by (simp only: cos_degrees_turns)
  also have "(solar_L d - solar_alpha0 d * rad2deg) * deg2rad = solar_L d * deg2rad - solar_alpha0 d"
    by (simp add: left_diff_distrib rad2deg_deg2rad)
  finally show "cos (fix180_once (solar_L d - sp_ra (getSolarParameters d)) * deg2rad)
     = cos (solar_L d * deg2rad - solar_alpha0 d)"
    by (simp add: e_def al_def)
qed

text \<open>With \<open>B\<close> the offset of the right ascension from the ecliptic longitude and \<open>D\<close> the
  offset of the ecliptic longitude from the mean longitude, both in radians.\<close>

lemma solar_eot_split:
  "solar_L d * deg2rad - solar_alpha0 d
     = (solar_lambda d * deg2rad - solar_alpha0 d) - (solar_lambda d - solar_L d) * deg2rad"
  by (simp add: algebra_simps)

lemma solar_D_small:
  "\<bar>(solar_lambda d - solar_L d) * deg2rad\<bar> \<le> 1.935 * deg2rad"
  using solar_lambda_near_L [of d] deg2rad_pos
  by (simp only: abs_mult) simp

lemma solar_B:
  assumes "valid_date d"
  shows "0 < cos (solar_epsilon d * deg2rad)"
    and "0 < cos (solar_lambda d * deg2rad - solar_alpha0 d)"
proof -
  show c: "0 < cos (solar_epsilon d * deg2rad)"
    using solar_epsilon_range [OF assms] by (intro cos_degrees_pos) simp_all
  show "0 < cos (solar_lambda d * deg2rad - solar_alpha0 d)"
    unfolding solar_alpha0_def by (rule ra_offset(4) [OF c])
qed

lemma solar_eot_not_antipodal:
  assumes "valid_date d"
  shows "fix180_once (solar_L d - sp_ra (getSolarParameters d)) \<noteq> - 180"
proof
  define B where "B = solar_lambda d * deg2rad - solar_alpha0 d"
  define D where "D = (solar_lambda d - solar_L d) * deg2rad"
  assume "fix180_once (solar_L d - sp_ra (getSolarParameters d)) = - 180"
  then have "cos (solar_L d * deg2rad - solar_alpha0 d) = cos (- 180 * deg2rad)"
    using solar_eot_angle(4) [of d] by simp
  then have c: "cos (B - D) = - 1"
    by (simp add: solar_eot_split [of d] B_def D_def deg2rad_values)
  then have s: "sin (B - D) = 0"
    using sin_cos_squared_add [of "B - D"] by simp
  have "cos B = cos ((B - D) + D)" by simp
  also have "\<dots> = - cos D"
    by (simp only: cos_add c s)
  finally have "cos B = - cos D" .
  moreover have "0 < cos B"
    using solar_B(2) [OF assms] by (simp add: B_def)
  moreover have "0 < cos D"
  proof -
    have "\<bar>D\<bar> \<le> 1.935 * deg2rad"
      using solar_D_small [of d] by (simp add: D_def)
    moreover have "1.935 * deg2rad < 90 * deg2rad"
      by (intro deg2rad_strict_mono) simp
    ultimately have "- (pi / 2) < D" "D < pi / 2"
      by (simp_all add: deg2rad_values abs_le_iff)
    then show ?thesis by (rule cos_gt_zero_pi)
  qed
  ultimately show False by simp
qed

text \<open>
  Claim C1. For every instant a \<open>Date\<close> can hold, with \<open>n = JulianDate(instant) - 2451545.0\<close>,
  \<open>getSolarParameters\<close> returns exactly the pipeline of section 4.2 of the specification:
  \<open>L\<close> and \<open>g\<close> normalised to \<open>[0, 360)\<close>, the ecliptic longitude, the obliquity, the right
  ascension \<open>normalize360 (atan2 (cos \<epsilon> sin \<lambda>) (cos \<lambda>))\<close>, the declination
  \<open>asin (sin \<epsilon> sin \<lambda>)\<close> and the equation of time \<open>normalize180 (L - \<alpha>) * 4\<close>, angles in
  degrees and the arguments of the trigonometric functions in radians.
\<close>

theorem getSolarParameters_refines_spec:
  assumes "valid_date d"
  shows "getSolarParameters d = spec_solar d"
proof -
  define al where "al = sp_ra (getSolarParameters d)"
  have al: "al = normalize360 (solar_alpha0 d * rad2deg)"
    by (simp add: al_def solar_ra_range(3))
  have r: "- 540 \<le> solar_L d - al" "solar_L d - al \<le> 540"
    using solar_L_range [of d] solar_ra_range(1,2) [of d] by (simp_all add: al_def)
  have "fix180_once (solar_L d - al) = normalize180 (solar_L d - al)"
    using fix180_once_spec(3) [OF r] solar_eot_not_antipodal [OF assms] by (simp add: al_def)
  then have e: "fix180_once (solar_L d - normalize360 (solar_alpha0 d * rad2deg))
                  = normalize180 (solar_L d - normalize360 (solar_alpha0 d * rad2deg))"
    by (simp only: al)
  show ?thesis
    by (simp only: getSolarParameters_locals spec_solar_locals solar_ra_normalize360 e)
qed

theorem getSolarParameters_refines_spec_witness:
  "valid_date 0 \<and> getSolarParameters 0 = spec_solar 0"
  using getSolarParameters_refines_spec [of 0] by (simp add: valid_date_def)

subsection \<open>The ranges of the declination and of the equation of time\<close>

lemma solar_dec_range:
  "- 90 \<le> sp_dec (getSolarParameters d)" "sp_dec (getSolarParameters d) \<le> 90"
proof -
  define q where "q = sin (solar_epsilon d * deg2rad) * sin (solar_lambda d * deg2rad)"
  have "\<bar>q\<bar> \<le> 1 * 1"
    unfolding q_def abs_mult by (intro mult_mono) simp_all
  then have q: "- 1 \<le> q" "q \<le> 1" by simp_all
  have "- (pi / 2) \<le> arcsin q" "arcsin q \<le> pi / 2"
    using arcsin_bounded [OF q] by simp_all
  then have "- 90 \<le> arcsin q * rad2deg" "arcsin q * rad2deg \<le> 90"
    by (simp_all add: rad2deg_def field_simps)
  moreover have "sp_dec (getSolarParameters d) = arcsin q * rad2deg"
    by (simp only: getSolarParameters_locals solar_params.simps q_def)
  ultimately show "- 90 \<le> sp_dec (getSolarParameters d)" "sp_dec (getSolarParameters d) \<le> 90"
    by simp_all
qed

lemma sqrt3_bounds: "1.732 \<le> sqrt 3" "sqrt 3 \<le> 1.7321"
  by (rule real_le_rsqrt, simp add: power2_eq_square)
     (rule real_le_lsqrt, simp_all add: power2_eq_square)

lemma sqrt2_bounds: "sqrt 2 \<le> 1.4143"
  by (rule real_le_lsqrt, simp_all add: power2_eq_square)

lemma cos_pi_12: "cos (pi / 12) = sqrt 2 * (1 + sqrt 3) / 4"
proof -
  have "pi / 12 = pi / 3 - pi / 4" by simp
  then have "cos (pi / 12) = cos (pi / 3) * cos (pi / 4) + sin (pi / 3) * sin (pi / 4)"
    by (simp only: cos_diff)
  then show ?thesis
    by (simp add: cos_60 sin_60 cos_45 sin_45 algebra_simps)
qed

lemma cos_pi_24_less: "cos (pi / 24) < 0.9933"
proof -
  have "sqrt 2 * (1 + sqrt 3) \<le> 1.4143 * (1 + 1.7321)"
    using sqrt2_bounds sqrt3_bounds(2) by (intro mult_mono) simp_all
  then have c12: "cos (pi / 12) \<le> 0.9661"
    by (simp add: cos_pi_12)
  have "cos (pi / 12) = 2 * (cos (pi / 24))\<^sup>2 - 1"
    using cos_double_cos [of "pi / 24"] by simp
  then have sq: "(cos (pi / 24))\<^sup>2 \<le> 0.98305"
    using c12 by simp
  have "(0.9933 :: real)\<^sup>2 > 0.98305"
    by (simp add: power2_eq_square)
  then have "(cos (pi / 24))\<^sup>2 < (0.9933 :: real)\<^sup>2"
    using sq by linarith
  then show ?thesis
    by (rule power2_less_imp_less) simp
qed

lemma cos_ge_quadratic: "1 - a\<^sup>2 / 2 \<le> cos a" for a :: real
proof -
  have "\<bar>sin (a / 2)\<bar> \<le> \<bar>a / 2\<bar>"
    by (rule abs_sin_x_le_abs_x)
  then have "(sin (a / 2))\<^sup>2 \<le> (a / 2)\<^sup>2"
    by (simp only: abs_le_square_iff)
  moreover have "cos a = 1 - 2 * (sin (a / 2))\<^sup>2"
    using cos_double_sin [of "a / 2"] by simp
  ultimately show ?thesis
    by (simp add: power2_eq_square)
qed

lemma recent_date_valid: "recent_date d \<Longrightarrow> valid_date d"
  by (simp add: recent_date_def valid_date_def)

lemma recent_epsilon_range:
  assumes "recent_date d"
  shows "- 30 \<le> solar_epsilon d" and "solar_epsilon d \<le> 30"
proof -
  have "- 1000000000000000 \<le> real_of_int d" "real_of_int d \<le> 8640000000000000"
    using assms unfolding recent_date_def by linarith+
  then show "- 30 \<le> solar_epsilon d" and "solar_epsilon d \<le> 30"
    by (simp_all add: solar_epsilon_def solar_n_def getJulianDate_def getTime_def field_simps)
qed

lemma recent_cos_epsilon:
  assumes "recent_date d"
  shows "0.866 \<le> cos (solar_epsilon d * deg2rad)"
proof -
  define a where "a = \<bar>solar_epsilon d\<bar>"
  have a: "0 \<le> a" "a \<le> 30"
    using recent_epsilon_range [OF assms] by (simp_all add: a_def)
  have "0 \<le> a * deg2rad" "a * deg2rad \<le> pi / 6"
    using deg2rad_mono [OF a(1)] deg2rad_mono [OF a(2)] by (simp_all add: deg2rad_values)
  moreover have "pi / 6 \<le> pi" by simp
  ultimately have "cos (pi / 6) \<le> cos (a * deg2rad)"
    by (intro cos_monotone_0_pi_le) simp_all
  moreover have "cos (a * deg2rad) = cos (solar_epsilon d * deg2rad)"
  proof -
    have "a * deg2rad = \<bar>solar_epsilon d * deg2rad\<bar>"
      using deg2rad_pos by (simp add: a_def abs_mult)
    then show ?thesis by simp
  qed
  moreover have "0.866 \<le> cos (pi / 6)"
    using sqrt3_bounds(1) by (simp add: cos_30)
  ultimately show ?thesis by linarith
qed

lemma recent_B:
  assumes "recent_date d"
  defines "B \<equiv> solar_lambda d * deg2rad - solar_alpha0 d"
  shows "0.9974 \<le> cos B" and "\<bar>sin B\<bar> \<le> 0.072"
proof -
  define c where "c = cos (solar_epsilon d * deg2rad)"
  have c: "0.866 \<le> c" "c \<le> 1"
    using recent_cos_epsilon [OF assms(1)] by (simp_all add: c_def)
  then have c0: "0 < c" by simp
  have "\<bar>sin B\<bar> \<le> (1 - c) / (1 + c)"
    unfolding B_def solar_alpha0_def c_def [symmetric] by (rule ra_offset_sin_bound [OF c0 c(2)])
  moreover have "(1 - c) / (1 + c) \<le> 0.072"
    using c by (simp add: field_simps)
  ultimately show s: "\<bar>sin B\<bar> \<le> 0.072" by linarith
  have "(sin B)\<^sup>2 \<le> (0.072 :: real)\<^sup>2"
    using s by (simp only: abs_le_square_iff [symmetric])
  then have "(cos B)\<^sup>2 \<ge> 1 - (0.072 :: real)\<^sup>2"
    by (simp add: cos_squared_eq)
  moreover have "1 - (0.072 :: real)\<^sup>2 \<ge> (0.9974 :: real)\<^sup>2"
    by (simp add: power2_eq_square)
  ultimately have "(0.9974 :: real)\<^sup>2 \<le> (cos B)\<^sup>2" by linarith
  moreover have "0 < cos B"
    unfolding B_def solar_alpha0_def c_def [symmetric] by (rule ra_offset(4) [OF c0])
  ultimately show "0.9974 \<le> cos B"
    by (intro power2_le_imp_le [of "0.9974" "cos B"]) simp_all
qed

lemma solar_D:
  defines "D \<equiv> \<lambda>d. (solar_lambda d - solar_L d) * deg2rad"
  shows "0.999 \<le> cos (D d)" and "\<bar>sin (D d)\<bar> \<le> 0.043"
proof -
  have "deg2rad < 4 / 180"
    using pi_less_4 by (simp add: deg2rad_def)
  then have "1.935 * deg2rad \<le> 0.043" by simp
  then have a: "\<bar>D d\<bar> \<le> 0.043"
    using solar_D_small [of d] by (simp add: D_def)
  show "\<bar>sin (D d)\<bar> \<le> 0.043"
    using abs_sin_x_le_abs_x [of "D d"] a by linarith
  have "(D d)\<^sup>2 \<le> (0.043 :: real)\<^sup>2"
    using a by (simp only: abs_le_square_iff [symmetric])
  then have "1 - (D d)\<^sup>2 / 2 \<ge> 0.999"
    by (simp add: power2_eq_square)
  then show "0.999 \<le> cos (D d)"
    using cos_ge_quadratic [of "D d"] by linarith
qed

lemma recent_eot_angle_cos:
  assumes "recent_date d"
  shows "0.9933 \<le> cos (solar_L d * deg2rad - solar_alpha0 d)"
proof -
  define B where "B = solar_lambda d * deg2rad - solar_alpha0 d"
  define D where "D = (solar_lambda d - solar_L d) * deg2rad"
  have B: "0.9974 \<le> cos B" "\<bar>sin B\<bar> \<le> 0.072"
    using recent_B [OF assms] by (simp_all add: B_def)
  have D: "0.999 \<le> cos D" "\<bar>sin D\<bar> \<le> 0.043"
    using solar_D [of d] by (simp_all add: D_def)
  have 1: "0.9974 * 0.999 \<le> cos B * cos D"
    using B(1) D(1) by (intro mult_mono) simp_all
  have "\<bar>sin B * sin D\<bar> \<le> 0.072 * 0.043"
    unfolding abs_mult using B(2) D(2) by (intro mult_mono) simp_all
  then have 2: "- (0.072 * 0.043) \<le> sin B * sin D"
    by (simp only: abs_le_iff) simp
  have "cos (B - D) = cos B * cos D + sin B * sin D"
    by (rule cos_diff)
  then have "0.9933 \<le> cos (B - D)"
    using 1 2 by simp
  then show ?thesis
    by (simp add: solar_eot_split [of d] B_def D_def)
qed

lemma recent_eot_range:
  assumes "recent_date d"
  shows "- 30 < sp_eot (getSolarParameters d)" and "sp_eot (getSolarParameters d) < 30"
proof -
  define e where "e = fix180_once (solar_L d - sp_ra (getSolarParameters d))"
  note ea = solar_eot_angle [of d, folded e_def]
  have "cos (pi / 24) < cos (e * deg2rad)"
    using recent_eot_angle_cos [OF assms] cos_pi_24_less by (simp add: ea(4))
  also have "cos (e * deg2rad) = cos (\<bar>e\<bar> * deg2rad)"
  proof -
    have "\<bar>e\<bar> * deg2rad = \<bar>e * deg2rad\<bar>"
      using deg2rad_pos by (simp add: abs_mult)
    then show ?thesis by simp
  qed
  finally have lt: "cos (pi / 24) < cos (\<bar>e\<bar> * deg2rad)" .
  have "0 \<le> \<bar>e\<bar>" "\<bar>e\<bar> \<le> 180"
    using ea(2,3) by simp_all
  then have r: "0 \<le> \<bar>e\<bar> * deg2rad" "\<bar>e\<bar> * deg2rad \<le> pi"
    using deg2rad_mono [of 0 "\<bar>e\<bar>"] deg2rad_mono [of "\<bar>e\<bar>" 180]
    by (simp_all add: deg2rad_values)
  have "\<bar>e\<bar> * deg2rad < pi / 24"
    using lt r by (subst (asm) cos_mono_less_eq) simp_all
  then have "\<bar>e\<bar> < 7.5"
    by (simp add: deg2rad_def field_simps)
  then show "- 30 < sp_eot (getSolarParameters d)" and "sp_eot (getSolarParameters d) < 30"
    by (simp_all add: ea(1) abs_less_iff)
qed

text \<open>
  Claim C4, as the code has it. For every instant the declination lies in \<open>[-90, 90]\<close>
  degrees; the equation of time lies within \<open>[-30, 30]\<close> minutes for every instant from
  \<open>10\<^sup>1\<^sup>5\<close> milliseconds before 1970 to the end of the range of a \<open>Date\<close>.
\<close>

theorem solar_dec_eot_ranges:
  "- 90 \<le> sp_dec (getSolarParameters d) \<and> sp_dec (getSolarParameters d) \<le> 90
   \<and> (recent_date d \<longrightarrow>
         - 30 \<le> sp_eot (getSolarParameters d) \<and> sp_eot (getSolarParameters d) \<le> 30)"
  using solar_dec_range [of d] recent_eot_range [of d] by auto

theorem solar_dec_eot_ranges_witness:
  "recent_date 0
   \<and> - 90 \<le> sp_dec (getSolarParameters 0) \<and> sp_dec (getSolarParameters 0) \<le> 90
   \<and> - 30 \<le> sp_eot (getSolarParameters 0) \<and> sp_eot (getSolarParameters 0) \<le> 30"
  using solar_dec_eot_ranges [of 0] by (simp add: recent_date_def)

lemma far_past_locals:
  "solar_n far_past = - 95011038.5"
  "solar_L far_past = 57.3911751"
  "solar_epsilon far_past = 61.4434154"
proof -
  show n: "solar_n far_past = - 95011038.5"
    by (simp add: solar_n_def getJulianDate_def getTime_def far_past_def)
  show "solar_L far_past = 57.3911751"
    by (simp add: solar_L_def n rem360_fix_def js_rem_def js_trunc_def Let_def)
  show "solar_epsilon far_past = 61.4434154"
    by (simp add: solar_epsilon_def n)
qed

lemma far_past_alpha0:
  "0 < solar_alpha0 far_past" "solar_alpha0 far_past < pi / 4"
proof -
  define c where "c = cos (solar_epsilon far_past * deg2rad)"
  define l where "l = solar_lambda far_past * deg2rad"
  have "60 * deg2rad \<le> solar_epsilon far_past * deg2rad"
    by (intro deg2rad_mono) (simp add: far_past_locals)
  moreover have "solar_epsilon far_past * deg2rad \<le> 180 * deg2rad"
    by (intro deg2rad_mono) (simp add: far_past_locals)
  ultimately have "cos (solar_epsilon far_past * deg2rad) \<le> cos (pi / 3)"
    by (intro cos_monotone_0_pi_le) (simp_all add: deg2rad_values)
  then have c_le: "c \<le> 1 / 2"
    by (simp add: c_def cos_60)
  have c_pos: "0 < c"
    unfolding c_def by (intro cos_degrees_pos) (simp_all add: far_past_locals)
  have "solar_lambda far_past - solar_L far_past \<le> 1.935"
    "- (solar_lambda far_past - solar_L far_past) \<le> 1.935"
    using solar_lambda_near_L [of far_past, unfolded abs_le_iff] by simp_all
  then have lam: "0 < solar_lambda far_past" "solar_lambda far_past \<le> 60"
    by (simp_all add: far_past_locals)
  have l: "0 < l" "l \<le> pi / 3"
    using deg2rad_strict_mono [OF lam(1)] deg2rad_mono [OF lam(2)]
    by (simp_all add: l_def deg2rad_values)
  then have l2: "l < pi / 2" "- (pi / 2) < l"
    using pi_gt_zero by linarith+
  have cl: "0 < cos l" using l(1) l2(1) by (rule cos_gt_zero)
  have sl: "0 < sin l" using l(1) l2(1) by (rule sin_gt_zero2)
  have "tan l \<le> tan (pi / 3)"
    using l2(2) l(2) by (intro tan_mono_le) simp_all
  then have tl: "tan l \<le> sqrt 3" by (simp add: tan_60)
  have tpos: "0 < tan l"
    using cl sl by (simp add: tan_def)
  have a: "solar_alpha0 far_past = arctan (c * tan l)"
    using cl by (simp add: solar_alpha0_def Math_atan2_def c_def l_def tan_def)
  have "c * tan l \<le> (1 / 2) * sqrt 3"
    using c_le c_pos tl tpos by (intro mult_mono) simp_all
  also have "\<dots> < 1"
    using sqrt3_bounds(2) by simp
  finally have "arctan (c * tan l) < arctan 1"
    by (simp only: arctan_less_iff)
  then show "solar_alpha0 far_past < pi / 4"
    by (simp add: a arctan_one)
  have "0 < c * tan l"
    using c_pos tpos by simp
  then show "0 < solar_alpha0 far_past"
    by (simp add: a)
qed

text \<open>At the instant \<open>far_past\<close> the obliquity of the code is above 61 degrees, the mean
  longitude is 57.39 degrees and the right ascension is below 45 degrees: the equation of
  time is above 30 minutes.\<close>

theorem eot_far_past_counterexample:
  "valid_date far_past
   \<and> \<not> (- 30 \<le> sp_eot (getSolarParameters far_past) \<and> sp_eot (getSolarParameters far_past) \<le> 30)"
proof -
  define a where "a = solar_alpha0 far_past * rad2deg"
  have "0 < a" "a < 45"
    using far_past_alpha0 by (simp_all add: a_def rad2deg_def field_simps)
  moreover have "sp_eot (getSolarParameters far_past)
      = fix180_once (57.3911751 - (if a < 0 then a + 360 else a)) * 4"
    by (simp only: getSolarParameters_locals solar_params.simps far_past_locals a_def)
  ultimately have "30 < sp_eot (getSolarParameters far_past)"
    by (simp add: fix180_once_def Let_def)
  then show ?thesis
    by (simp add: valid_date_def far_past_def)
qed


end
